theory Spec2Isabelle
  imports Main "HOL-Library.Word"
begin

unbundle bit_operations_syntax

section \<open>UnipdSkin: a driver for a capacitive matrix controller on a two-wire bus\<close>

text \<open>
  The development embeds \<^verbatim>\<open>UnipdSkin.h\<close> and \<^verbatim>\<open>UnipdSkin.cpp\<close>.
  A \<^verbatim>\<open>byte\<close> (\<^verbatim>\<open>uint8_t\<close>) is an 8-bit word. An \<^verbatim>\<open>unsigned int\<close>
  is taken as a 16-bit word (its width on the AVR boards; every value the driver computes is
  below \<open>2 ^ 16\<close>, so a wider \<^verbatim>\<open>unsigned int\<close> holds the same numbers).
  Storage that C++ leaves uninitialised (the local burst buffer and the cells returned by
  \<^verbatim>\<open>new[]\<close>) holds \<open>None\<close> until it is written.
\<close>

type_synonym byte = "8 word"
type_synonym uint = "16 word"
type_synonym addr = nat

subsection \<open>Constants of the header\<close>

definition I2C_ADDRESS :: byte where "I2C_ADDRESS = 0x38"
definition MODE_NORMAL :: byte where "MODE_NORMAL = 0x00"
definition MODE_TEST :: byte where "MODE_TEST = 0x40"
definition NUM_RX :: nat where "NUM_RX = 12"
definition NUM_TX :: nat where "NUM_TX = 21"

subsection \<open>What the driver does to the outside world\<close>

datatype event =
    WireBegin
  | WireSetClock nat
  | WireSetTimeout nat
  | Transmit byte "byte list" bool
  | Request byte nat
  | Delay nat
  | DelayMicroseconds nat
  | Println string

datatype fault =
    NullPointer
  | DanglingPointer addr
  | GridIndex nat
  | BufferIndex nat

text \<open>
  The state is the object's members, as the header declares them, together with the
  surroundings the member functions act on: the heap and the bus.

  \<^item> \<open>grid\<close> is the pointer member: \<open>None\<close> is \<^verbatim>\<open>nullptr\<close>.
  \<^item> \<open>heap\<close> maps the address of each live array to its cells; \<open>allocs\<close> counts the arrays
    that \<^verbatim>\<open>new[]\<close> has handed out and is the next fresh address.
  \<^item> \<open>txBuffer\<close>, \<open>txAddress\<close> and \<open>rxBuffer\<close> are the queues of the bus library;
    \<open>history\<close> is everything the driver has done on the bus, the clock and the console, oldest
    first.
  \<^item> \<open>endStatus\<close> and \<open>deviceReply\<close> are the device: the status it gives to a write
    transaction and the bytes it sends on a read, each as a function of the history up to and
    including that transaction. No member function changes them.
\<close>

record skin =
  grid :: "addr option"
  num_TX :: uint
  num_RX :: uint
  isInit :: bool
  rawData :: bool
  RX_lines :: "bool list"
  TX_lines :: "bool list"
  heap :: "addr \<Rightarrow> uint option list option"
  allocs :: nat
  txAddress :: byte
  txBuffer :: "byte list"
  rxBuffer :: "byte list"
  history :: "event list"
  endStatus :: "event list \<Rightarrow> byte"
  deviceReply :: "event list \<Rightarrow> byte list"

definition emit :: "event \<Rightarrow> skin \<Rightarrow> skin" where
  "emit e s = s\<lparr>history := history s @ [e]\<rparr>"

subsection \<open>The bus transport\<close>

text \<open>
  Modelled from the spec: the Bus Transport collaborator (the \<^verbatim>\<open>Wire\<close> object of the
  board's two-wire library), which the driver calls and the repository does not contain. It
  frames a write transaction between begin and end, queues bytes in between, gives a completion
  status at the end (0 is success), delivers at most the requested number of bytes on a read
  request, and hands them out one at a time while any is available.
\<close>

definition Wire_begin :: "skin \<Rightarrow> skin" where
  "Wire_begin s = emit WireBegin s"

definition Wire_setClock :: "nat \<Rightarrow> skin \<Rightarrow> skin" where
  "Wire_setClock hz s = emit (WireSetClock hz) s"

definition Wire_setTimeout :: "nat \<Rightarrow> skin \<Rightarrow> skin" where
  "Wire_setTimeout ms s = emit (WireSetTimeout ms) s"

definition Wire_beginTransmission :: "byte \<Rightarrow> skin \<Rightarrow> skin" where
  "Wire_beginTransmission a s = s\<lparr>txAddress := a, txBuffer := []\<rparr>"

definition Wire_write :: "byte \<Rightarrow> skin \<Rightarrow> skin" where
  "Wire_write b s = s\<lparr>txBuffer := txBuffer s @ [b]\<rparr>"

definition Wire_endTransmission :: "bool \<Rightarrow> skin \<Rightarrow> byte \<times> skin" where
  "Wire_endTransmission sendStop s =
     (let s' = emit (Transmit (txAddress s) (txBuffer s) sendStop) s
      in (endStatus s' (history s'), s'\<lparr>txBuffer := []\<rparr>))"

definition Wire_requestFrom :: "byte \<Rightarrow> nat \<Rightarrow> skin \<Rightarrow> skin" where
  "Wire_requestFrom a quantity s =
     (let s' = emit (Request a quantity) s
      in s'\<lparr>rxBuffer := take quantity (deviceReply s' (history s'))\<rparr>)"

definition Wire_available :: "skin \<Rightarrow> nat" where
  "Wire_available s = length (rxBuffer s)"

definition Wire_read :: "skin \<Rightarrow> byte \<times> skin" where
  "Wire_read s = (hd (rxBuffer s), s\<lparr>rxBuffer := tl (rxBuffer s)\<rparr>)"

definition delay :: "nat \<Rightarrow> skin \<Rightarrow> skin" where
  "delay ms s = emit (Delay ms) s"

definition delayMicroseconds :: "nat \<Rightarrow> skin \<Rightarrow> skin" where
  "delayMicroseconds us s = emit (DelayMicroseconds us) s"

definition Serial_println :: "string \<Rightarrow> skin \<Rightarrow> skin" where
  "Serial_println msg s = emit (Println msg) s"

subsection \<open>The heap\<close>

text \<open>
  \<^verbatim>\<open>new unsigned int[n]\<close> hands out a fresh array of \<open>n\<close> uninitialised cells. A store
  through the grid pointer faults when the pointer is null, when it names no live array, and
  when the index is outside the array: the C++ has no such check, and the fault stands for its
  undefined behaviour.
\<close>

definition new_array :: "nat \<Rightarrow> skin \<Rightarrow> addr \<times> skin" where
  "new_array n s =
     (allocs s, s\<lparr>heap := (heap s)(allocs s := Some (replicate n None)), allocs := Suc (allocs s)\<rparr>)"

definition grid_store :: "nat \<Rightarrow> uint option \<Rightarrow> skin \<Rightarrow> fault + skin" where
  "grid_store k v s =
     (case grid s of
        None \<Rightarrow> Inl NullPointer
      | Some a \<Rightarrow>
          (case heap s a of
             None \<Rightarrow> Inl (DanglingPointer a)
           | Some cells \<Rightarrow>
               if k < length cells then Inr (s\<lparr>heap := (heap s)(a := Some (cells[k := v]))\<rparr>)
               else Inl (GridIndex k)))"

definition buffer_at :: "byte option list \<Rightarrow> nat \<Rightarrow> fault + byte option" where
  "buffer_at buffer k = (if k < length buffer then Inr (buffer ! k) else Inl (BufferIndex k))"

subsection \<open>The object as constructed\<close>

text \<open>
  The constructor body is empty. \<open>isInit\<close>, \<open>rawData\<close>, \<open>num_TX\<close>, \<open>num_RX\<close> and the two line
  masks have initialisers in the header. \<open>grid\<close> has none, so after construction the pointer
  holds whatever the storage of the object held: the first argument \<open>g0\<close> is that value. It is
  \<open>None\<close> (\<^verbatim>\<open>nullptr\<close>) for an object of static storage duration, which is zero-initialised
  before the constructor runs, and any value for an automatic or heap object. No array is
  live at construction, so a pointer that is not null leads nowhere. The other two arguments
  are the device.
\<close>

definition UnipdSkin ::
  "addr option \<Rightarrow> (event list \<Rightarrow> byte) \<Rightarrow> (event list \<Rightarrow> byte list) \<Rightarrow> skin" where
  "UnipdSkin g0 st rp =
     \<lparr>grid = g0, num_TX = of_nat NUM_TX, num_RX = of_nat NUM_RX,
      isInit = False, rawData = False,
      RX_lines = replicate NUM_RX True, TX_lines = replicate NUM_TX True,
      heap = (\<lambda>a. None), allocs = 0,
      txAddress = 0, txBuffer = [], rxBuffer = [], history = [],
      endStatus = st, deviceReply = rp\<rparr>"

subsection \<open>Register access\<close>

definition setRegister :: "byte \<Rightarrow> byte \<Rightarrow> skin \<Rightarrow> byte \<times> skin" where
  "setRegister reg val s =
     (let s1 = Wire_beginTransmission I2C_ADDRESS s;
          s2 = Wire_write reg s1;
          s3 = Wire_write val s2
      in Wire_endTransmission False s3)"

text \<open>
  The loop of \<^verbatim>\<open>getRegisters\<close>: \<^verbatim>\<open>while (Wire.available()) buffer[i++] = Wire.read();\<close>
  with \<open>i\<close> a byte. It ends because every read takes one byte off the receive queue.
\<close>

function drain :: "byte \<Rightarrow> byte option list \<Rightarrow> skin \<Rightarrow> fault + (byte option list \<times> skin)" where
  "drain i buffer s =
     (if Wire_available s \<noteq> 0 then
        (if unat i < length buffer
         then drain (i + 1) (buffer[unat i := Some (fst (Wire_read s))]) (snd (Wire_read s))
         else Inl (BufferIndex (unat i)))
      else Inr (buffer, s))"
  by pat_completeness auto
termination
  by (relation "measure (\<lambda>(i, buffer, s). length (rxBuffer s))")
     (auto simp: Wire_available_def Wire_read_def)

definition getRegisters :: "byte \<Rightarrow> byte \<Rightarrow> byte option list \<Rightarrow> skin \<Rightarrow> fault + (byte option list \<times> skin)" where
  "getRegisters reg sz buffer s =
     (let s1 = Wire_beginTransmission I2C_ADDRESS s;
          s2 = Wire_write reg s1;
          (st, s3) = Wire_endTransmission False s2;
          s4 = Wire_requestFrom I2C_ADDRESS (unat sz) s3
      in drain 0 buffer s4)"

subsection \<open>Initialisation and mode control\<close>

text \<open>
  \<^verbatim>\<open>init\<close> is declared \<^verbatim>\<open>bool\<close> and returns the integers 0 and 1: \<^verbatim>\<open>return 0\<close> is
  \<open>False\<close> and \<^verbatim>\<open>return 1\<close> is \<open>True\<close>.
\<close>

definition init :: "skin \<Rightarrow> bool \<times> skin" where
  "init s =
     (let s1 = Wire_begin s;
          s2 = Wire_setClock 400000 s1;
          s3 = Wire_setTimeout 200 s2;
          (initDone, s4) = setRegister 0x00 MODE_NORMAL s3
      in if initDone = 0 then
           (let s5 = delay 100 s4;
                s6 = s5\<lparr>isInit := True\<rparr>;
                (ignored, s7) = setRegister 0xA7 0x04 s6
            in (False, s7))
         else
           (let s5 = Serial_println ''[UnipdSkin] Error: I2C Connection Failed. Check SDA/SCL.'' s4
            in (True, s5)))"

text \<open>
  The three statements of \<^verbatim>\<open>useRawData\<close>, in the order of the source: the assignment to
  \<open>rawData\<close>, the allocation of the grid behind its null check, and the switch of the
  controller to test mode.
\<close>

definition useRawData_assign :: "bool \<Rightarrow> skin \<Rightarrow> skin" where
  "useRawData_assign useRaw s = s\<lparr>rawData := useRaw\<rparr>"

definition useRawData_allocate :: "skin \<Rightarrow> skin" where
  "useRawData_allocate s =
     (if grid s = None then
        (let (p, s') = new_array (unat (num_TX s * num_RX s)) s
         in s'\<lparr>grid := Some p\<rparr>)
      else s)"

definition useRawData_mode :: "bool \<Rightarrow> skin \<Rightarrow> skin" where
  "useRawData_mode useRaw s =
     (if isInit s \<and> useRaw then
        (let (ignored, s3) = setRegister 0x00 MODE_TEST s
         in Serial_println ''[UnipdSkin] Mode set to Raw Data Stream'' s3)
      else s)"

definition useRawData :: "bool \<Rightarrow> skin \<Rightarrow> skin" where
  "useRawData useRaw s =
     (let s1 = useRawData_assign useRaw s;
          s2 = useRawData_allocate s1
      in useRawData_mode useRaw s2)"

subsection \<open>The scan\<close>

text \<open>
  \<^verbatim>\<open>(buffer[2 * rxAddr] << 8) | (buffer[2 * rxAddr + 1])\<close>: both bytes are widened, the
  first is shifted left by eight bits, and the two are joined by bitwise or.
\<close>

definition combine :: "byte \<Rightarrow> byte \<Rightarrow> uint" where
  "combine hi lo = push_bit 8 (ucast hi) OR ucast lo"

definition combine_cells :: "byte option \<Rightarrow> byte option \<Rightarrow> uint option" where
  "combine_cells hi lo =
     (case hi of None \<Rightarrow> None
      | Some h \<Rightarrow> (case lo of None \<Rightarrow> None | Some l \<Rightarrow> Some (combine h l)))"

definition read_sample :: "byte option list \<Rightarrow> nat \<Rightarrow> fault + uint option" where
  "read_sample buffer rxAddr =
     (case buffer_at buffer (2 * rxAddr) of
        Inl e \<Rightarrow> Inl e
      | Inr hi \<Rightarrow>
          (case buffer_at buffer (2 * rxAddr + 1) of
             Inl e \<Rightarrow> Inl e
           | Inr lo \<Rightarrow> Inr (combine_cells hi lo)))"

text \<open>
  The inner loop over the RX lines of one row. \<open>gridTxAddr\<close> and \<open>gridRxAddr\<close> are bytes; the
  index \<^verbatim>\<open>(gridTxAddr * num_RX) + gridRxAddr\<close> is computed in \<^verbatim>\<open>unsigned int\<close>.
\<close>

function rx_loop :: "nat \<Rightarrow> byte \<Rightarrow> byte \<Rightarrow> byte option list \<Rightarrow> skin \<Rightarrow> fault + (byte \<times> skin)" where
  "rx_loop rxAddr gridTxAddr gridRxAddr buffer s =
     (if rxAddr < NUM_RX then
        (if RX_lines s ! rxAddr then
           (case read_sample buffer rxAddr of
              Inl e \<Rightarrow> Inl e
            | Inr v \<Rightarrow>
                (case grid_store (unat (ucast gridTxAddr * num_RX s + ucast gridRxAddr)) v s of
                   Inl e \<Rightarrow> Inl e
                 | Inr s' \<Rightarrow> rx_loop (rxAddr + 1) gridTxAddr (gridRxAddr + 1) buffer s'))
         else rx_loop (rxAddr + 1) gridTxAddr gridRxAddr buffer s)
      else Inr (gridRxAddr, s))"
  by pat_completeness auto
termination
  by (relation "measure (\<lambda>(rxAddr, gridTxAddr, gridRxAddr, buffer, s). NUM_RX - rxAddr)") auto

text \<open>The outer loop over the TX lines; the burst buffer lives across its rounds.\<close>

function tx_loop :: "nat \<Rightarrow> byte \<Rightarrow> byte option list \<Rightarrow> skin \<Rightarrow> fault + skin" where
  "tx_loop txAddr gridTxAddr buffer s =
     (if txAddr < NUM_TX then
        (if TX_lines s ! txAddr then
           (let (ignored, s1) = setRegister 0x01 (of_nat (NUM_TX - 1 - txAddr)) s;
                s2 = delayMicroseconds 50 s1
            in case getRegisters 0x10 (of_nat (2 * NUM_RX)) buffer s2 of
                 Inl e \<Rightarrow> Inl e
               | Inr (buffer', s3) \<Rightarrow>
                   (case rx_loop 0 gridTxAddr 0 buffer' s3 of
                      Inl e \<Rightarrow> Inl e
                    | Inr (gridRxAddr, s4) \<Rightarrow> tx_loop (txAddr + 1) (gridTxAddr + 1) buffer' s4))
         else tx_loop (txAddr + 1) gridTxAddr buffer s)
      else Inr s)"
  by pat_completeness auto
termination
  by (relation "measure (\<lambda>(txAddr, gridTxAddr, buffer, s). NUM_TX - txAddr)") auto

definition getRawData :: "skin \<Rightarrow> fault + skin" where
  "getRawData s =
     (let (ignored, s1) = setRegister 0x00 0xC0 s
      in tx_loop 0 0 (replicate (2 * NUM_RX) None) s1)"

definition updated :: "skin \<Rightarrow> fault + (bool \<times> skin)" where
  "updated s =
     (if \<not> isInit s then Inr (False, s)
      else if rawData s then
        (case getRawData s of Inl e \<Rightarrow> Inl e | Inr s' \<Rightarrow> Inr (True, s'))
      else Inr (False, s))"

subsection \<open>Sequences of public calls\<close>

datatype call = Init | UseRawData bool | Updated

definition step :: "call \<Rightarrow> skin \<Rightarrow> fault + skin" where
  "step c s =
     (case c of
        Init \<Rightarrow> Inr (snd (init s))
      | UseRawData b \<Rightarrow> Inr (useRawData b s)
      | Updated \<Rightarrow> (case updated s of Inl e \<Rightarrow> Inl e | Inr (b, s') \<Rightarrow> Inr s'))"

fun run :: "call list \<Rightarrow> skin \<Rightarrow> fault + skin" where
  "run [] s = Inr s"
| "run (c # cs) s = (case step c s of Inl e \<Rightarrow> Inl e | Inr s' \<Rightarrow> run cs s')"

section \<open>Notions used to state the properties\<close>

text \<open>
  The physical indices of the lines a mask includes, in ascending order: \<open>active xs ! i\<close> is
  the \<open>i\<close>-th true entry of \<open>xs\<close>.
\<close>

definition active :: "bool list \<Rightarrow> nat list" where
  "active xs = filter (\<lambda>k. xs ! k) [0..<length xs]"

definition countActive :: "bool list \<Rightarrow> nat" where
  "countActive xs = length (active xs)"

text \<open>The cells the grid pointer leads to, if any.\<close>

definition grid_cells :: "skin \<Rightarrow> uint option list option" where
  "grid_cells s = (case grid s of None \<Rightarrow> None | Some a \<Rightarrow> heap s a)"

definition allocated :: "skin \<Rightarrow> bool" where
  "allocated s =
     (case grid_cells s of None \<Rightarrow> False | Some cells \<Rightarrow> length cells = NUM_TX * NUM_RX)"

text \<open>
  What the header fixes and no member function changes: the two masks are arrays of
  \<^verbatim>\<open>NUM_TX\<close> and \<^verbatim>\<open>NUM_RX\<close> entries, and the dimension members hold the two macros.
\<close>

definition well_formed :: "skin \<Rightarrow> bool" where
  "well_formed s =
     (length (TX_lines s) = NUM_TX \<and> length (RX_lines s) = NUM_RX \<and>
      num_TX s = of_nat NUM_TX \<and> num_RX s = of_nat NUM_RX)"

text \<open>
  What one scanned row does on the bus: it selects TX line \<open>t\<close>, waits, names the data
  register and requests the burst.
\<close>

definition row_events :: "nat \<Rightarrow> event list" where
  "row_events t =
     [Transmit I2C_ADDRESS [0x01, of_nat (NUM_TX - 1 - t)] False,
      DelayMicroseconds 50,
      Transmit I2C_ADDRESS [0x10] False,
      Request I2C_ADDRESS (2 * NUM_RX)]"

text \<open>
  The bytes \<open>d\<close> that arrive are laid over the front of the buffer; what lies behind them
  stays as it was.
\<close>

definition overlay :: "byte list \<Rightarrow> byte option list \<Rightarrow> byte option list" where
  "overlay d buffer = map Some d @ drop (length d) buffer"

text \<open>
  The contents of the burst buffer after each row of a scan, for the TX lines \<open>ts\<close> in turn:
  \<open>rp\<close> is the device's reply, \<open>h\<close> the history before the row, \<open>buffer\<close> the buffer before
  it. The \<open>i\<close>-th buffer of the list is the one read right after TX line \<open>ts ! i\<close> was
  selected.
\<close>

fun burst_buffers ::
  "(event list \<Rightarrow> byte list) \<Rightarrow> event list \<Rightarrow> nat list \<Rightarrow> byte option list \<Rightarrow> byte option list list"
where
  "burst_buffers rp h [] buffer = []"
| "burst_buffers rp h (t # ts) buffer =
     (let h' = h @ row_events t;
          buffer' = overlay (take (2 * NUM_RX) (rp h')) buffer
      in buffer' # burst_buffers rp h' ts buffer')"

text \<open>The sample of RX line \<open>r\<close> in a burst buffer.\<close>

definition sample_of :: "byte option list \<Rightarrow> nat \<Rightarrow> uint option" where
  "sample_of buffer r = combine_cells (buffer ! (2 * r)) (buffer ! (2 * r + 1))"

text \<open>
  The stores of one row, and of the rows of a scan, as functions on the cells: the row that
  starts at \<open>base\<close> receives the samples of the RX lines \<open>rs\<close> from column \<open>j\<close> on.
\<close>

fun store_cells :: "nat \<Rightarrow> nat \<Rightarrow> nat list \<Rightarrow> byte option list \<Rightarrow> uint option list \<Rightarrow> uint option list" where
  "store_cells base j [] buffer cells = cells"
| "store_cells base j (r # rs) buffer cells =
     store_cells base (Suc j) rs buffer (cells[base + j := sample_of buffer r])"

fun store_rows ::
  "nat \<Rightarrow> nat \<Rightarrow> nat list \<Rightarrow> byte option list list \<Rightarrow> uint option list \<Rightarrow> uint option list" where
  "store_rows width i rs [] cells = cells"
| "store_rows width i rs (b # bs) cells =
     store_rows width (Suc i) rs bs (store_cells (i * width) 0 rs b cells)"

text \<open>The values written to the TX-select register 0x01, in the order of the history.\<close>

fun tx_selects :: "event list \<Rightarrow> byte list" where
  "tx_selects [] = []"
| "tx_selects (Transmit a [reg, val] stop # es) =
     (if reg = 0x01 then val # tx_selects es else tx_selects es)"
| "tx_selects (e # es) = tx_selects es"

text \<open>
  The history after the first four steps of \<^verbatim>\<open>init\<close>: the bus is set up and the
  mode register 0x00 is written with \<^verbatim>\<open>MODE_NORMAL\<close>. The device's answer to this
  history is the status that \<^verbatim>\<open>init\<close> tests.
\<close>

definition init_history :: "event list \<Rightarrow> event list" where
  "init_history h =
     h @ [WireBegin, WireSetClock 400000, WireSetTimeout 200,
          Transmit I2C_ADDRESS [0x00, MODE_NORMAL] False]"

text \<open>
  The bytes the transport delivers when \<open>n\<close> bytes are requested from register \<open>reg\<close> in
  state \<open>s\<close>: what the device sends in answer, cut at \<open>n\<close>.
\<close>

definition delivered :: "skin \<Rightarrow> byte \<Rightarrow> nat \<Rightarrow> byte list" where
  "delivered s reg n =
     take n (deviceReply s (history s @ [Transmit I2C_ADDRESS [reg] False, Request I2C_ADDRESS n]))"

text \<open>
  The burst buffers of a scan started in state \<open>s\<close>: the history of the rows begins after
  the write of 0xC0 to the mode register, and the buffer starts uninitialised.
\<close>

definition scan_bursts :: "skin \<Rightarrow> byte option list list" where
  "scan_bursts s =
     burst_buffers (deviceReply s) (history s @ [Transmit I2C_ADDRESS [0x00, 0xC0] False])
       (active (TX_lines s)) (replicate (2 * NUM_RX) None)"

text \<open>The flat indices of the grid that a scan with \<open>m\<close> active TX and \<open>n\<close> active RX lines writes.\<close>

definition written :: "nat \<Rightarrow> nat \<Rightarrow> nat set" where
  "written m n = {i * NUM_RX + j | i j. i < m \<and> j < n}"

text \<open>The state a scan leaves behind (the state itself where the scan faults).\<close>

definition scanned :: "skin \<Rightarrow> skin" where
  "scanned s = (case getRawData s of Inl e \<Rightarrow> s | Inr s' \<Rightarrow> s')"

text \<open>
  The device's reply to the burst of the \<open>i\<close>-th scanned row: the history it answers ends
  with the events of that row, that is, with the selection of the physical TX line
  \<open>active (TX_lines s) ! i\<close> and the request that follows it.
\<close>

definition row_reply :: "skin \<Rightarrow> nat \<Rightarrow> byte list" where
  "row_reply s i =
     deviceReply s
       (history s @ Transmit I2C_ADDRESS [0x00, 0xC0] False #
        concat (map row_events (take i (active (TX_lines s)))) @
        row_events (active (TX_lines s) ! i))"

text \<open>The cell of the grid at a flat index.\<close>

definition cell :: "skin \<Rightarrow> nat \<Rightarrow> uint option" where
  "cell s k = (case grid_cells s of None \<Rightarrow> None | Some cells \<Rightarrow> cells ! k)"

subsection \<open>Concrete devices and objects\<close>

text \<open>
  A device that acknowledges every write, one that never does (status 2: address not
  acknowledged), one that answers every burst with 24 bytes \<open>0x01\<close>, and one that sends
  only two bytes.
\<close>

definition ok_status :: "event list \<Rightarrow> byte" where
  "ok_status h = 0"

definition nack_status :: "event list \<Rightarrow> byte" where
  "nack_status h = 2"

definition ones_reply :: "event list \<Rightarrow> byte list" where
  "ones_reply h = replicate 24 0x01"

definition short_reply :: "event list \<Rightarrow> byte list" where
  "short_reply h = [0xAB, 0xCD]"

text \<open>
  An object on an acknowledging device after \<^verbatim>\<open>init()\<close> and \<^verbatim>\<open>useRawData(true)\<close>.
\<close>

definition raw_skin :: skin where
  "raw_skin = useRawData True (snd (init (UnipdSkin None ok_status ones_reply)))"

text \<open>
  An object with its grid allocated whose masks leave out RX line 0 and all TX lines but 0
  and 1 (the dimension members keep the values of the header).
\<close>

definition gap_skin :: skin where
  "gap_skin =
     (useRawData True (UnipdSkin None ok_status ones_reply))
       \<lparr>RX_lines := False # replicate 11 True, TX_lines := True # True # replicate 19 False\<rparr>"

text \<open>The fault a run ends with, if it ends with one.\<close>

definition fault_of :: "fault + 'a \<Rightarrow> fault option" where
  "fault_of r = (case r of Inl e \<Rightarrow> Some e | Inr x \<Rightarrow> None)"


text \<open>
  An object in automatic storage whose \<open>grid\<close> member holds a stale value that is not null,
  on an acknowledging device.
\<close>

definition stack_skin :: skin where
  "stack_skin = UnipdSkin (Some 7) ok_status ones_reply"

text \<open>
  A device that sends the bytes 0x12, 0x34 for every RX line, and an object on it after
  \<^verbatim>\<open>init()\<close> and \<^verbatim>\<open>useRawData(true)\<close>.
\<close>

definition pair_reply :: "event list \<Rightarrow> byte list" where
  "pair_reply h = concat (replicate 12 [0x12, 0x34])"

definition pair_skin :: skin where
  "pair_skin = useRawData True (snd (init (UnipdSkin None ok_status pair_reply)))"

section \<open>The member functions in closed form\<close>

declare drain.simps [simp del] rx_loop.simps [simp del] tx_loop.simps [simp del]

lemma setRegister_eq:
  "setRegister reg val s =
     (endStatus s (history s @ [Transmit I2C_ADDRESS [reg, val] False]),
      s\<lparr>txAddress := I2C_ADDRESS, txBuffer := [],
        history := history s @ [Transmit I2C_ADDRESS [reg, val] False]\<rparr>)"
  by (simp add: setRegister_def Wire_beginTransmission_def Wire_write_def
      Wire_endTransmission_def emit_def Let_def)

lemma unat_byte_Suc: "unat (i::byte) < 255 \<Longrightarrow> unat (i + 1) = Suc (unat i)"
  by (simp add: unat_word_ariths)

lemma drain_eq:
  "unat i + length (rxBuffer s) \<le> length buffer \<Longrightarrow> unat i + length (rxBuffer s) \<le> 255 \<Longrightarrow>
   drain i buffer s =
     Inr (take (unat i) buffer @ map Some (rxBuffer s) @ drop (unat i + length (rxBuffer s)) buffer,
          s\<lparr>rxBuffer := []\<rparr>)"
proof (induction "rxBuffer s" arbitrary: i buffer s)
  case Nil
  then show ?case by (subst drain.simps) (simp add: Wire_available_def)
next
  case (Cons b bs)
  let ?s' = "snd (Wire_read s)"
  let ?buffer' = "buffer[unat i := Some b]"
  have rx: "rxBuffer ?s' = bs" "fst (Wire_read s) = b" "?s'\<lparr>rxBuffer := []\<rparr> = s\<lparr>rxBuffer := []\<rparr>"
    using Cons.hyps(2) [symmetric] by (simp_all add: Wire_read_def)
  have lt: "unat i < length buffer" "unat i < 255"
    using Cons.prems Cons.hyps(2) [symmetric] by auto
  have i1: "unat (i + 1) = Suc (unat i)"
    using lt(2) by (rule unat_byte_Suc)
  have "drain i buffer s = drain (i + 1) ?buffer' ?s'"
    using lt(1) Cons.hyps(2) [symmetric]
    by (subst drain.simps) (simp add: Wire_available_def rx)
  also have "\<dots> = Inr (take (unat (i + 1)) ?buffer' @ map Some (rxBuffer ?s') @
                 drop (unat (i + 1) + length (rxBuffer ?s')) ?buffer', ?s'\<lparr>rxBuffer := []\<rparr>)"
    using Cons.prems Cons.hyps(2) [symmetric] by (intro Cons.hyps(1)) (simp_all add: rx i1)
  also have "\<dots> = Inr (take (unat i) buffer @ map Some (rxBuffer s) @
                 drop (unat i + length (rxBuffer s)) buffer, s\<lparr>rxBuffer := []\<rparr>)"
    using lt(1) Cons.hyps(2) [symmetric]
    by (simp add: rx i1 take_Suc_conv_app_nth)
  finally show ?case .
qed

lemma getRegisters_eq:
  assumes "length (delivered s reg (unat sz)) \<le> length buffer"
  shows "getRegisters reg sz buffer s =
     Inr (overlay (delivered s reg (unat sz)) buffer,
          s\<lparr>txAddress := I2C_ADDRESS, txBuffer := [], rxBuffer := [],
            history := history s @ [Transmit I2C_ADDRESS [reg] False, Request I2C_ADDRESS (unat sz)]\<rparr>)"
proof -
  have "unat sz < 256" using unsigned_less [of sz] by simp
  then have "length (delivered s reg (unat sz)) \<le> 255" by (simp add: delivered_def)
  with assms show ?thesis
    by (simp add: getRegisters_def Wire_beginTransmission_def Wire_write_def
      Wire_endTransmission_def Wire_requestFrom_def emit_def Let_def drain_eq overlay_def
      delivered_def)
qed

lemma unat_ucast_byte: "unat (ucast (b::byte) :: uint) = unat b"
  by (simp add: unsigned_ucast_eq take_bit_nat_eq_self_iff less_trans [OF unsigned_less [of b, simplified]])

lemma unat_of_nat_byte: "n < 256 \<Longrightarrow> unat (of_nat n :: byte) = n"
  by (simp add: unat_of_nat)

lemma grid_index:
  assumes "gT < NUM_TX" "gR \<le> NUM_RX"
  shows "unat (ucast (of_nat gT :: byte) * (of_nat NUM_RX :: uint) + ucast (of_nat gR :: byte)) =
         gT * NUM_RX + gR"
proof -
  have "gT * 12 + gR < 65536" "gT * 12 < 65536" "gT < 256" "gR < 256"
    using assms by (simp_all add: NUM_TX_def NUM_RX_def)
  then show ?thesis
    by (simp add: unat_word_ariths unat_ucast_byte unat_of_nat_byte NUM_RX_def unat_of_nat)
qed

lemma rx_loop_eq:
  assumes "length (RX_lines s) = NUM_RX" "num_RX s = of_nat NUM_RX"
    and "grid s = Some a" "heap s a = Some cells" "length cells = NUM_TX * NUM_RX"
    and "length buffer = 2 * NUM_RX" "gT < NUM_TX" "gR \<le> rxAddr" "rxAddr \<le> NUM_RX"
  shows "rx_loop rxAddr (of_nat gT) (of_nat gR) buffer s =
     Inr (of_nat (gR + length (filter (\<lambda>r. RX_lines s ! r) [rxAddr..<NUM_RX])),
          s\<lparr>heap := (heap s)(a := Some (store_cells (gT * NUM_RX) gR
                  (filter (\<lambda>r. RX_lines s ! r) [rxAddr..<NUM_RX]) buffer cells))\<rparr>)"
  using assms
proof (induction "NUM_RX - rxAddr" arbitrary: rxAddr gR s cells)
  case 0
  then have "rxAddr = NUM_RX" by simp
  then show ?case using "0.prems"(4)
    by (subst rx_loop.simps) (simp add: fun_upd_idem)
next
  case (Suc n)
  then have lt: "rxAddr < NUM_RX" and n: "n = NUM_RX - Suc rxAddr" by simp_all
  have upt: "[rxAddr..<NUM_RX] = rxAddr # [Suc rxAddr..<NUM_RX]"
    using lt by (simp add: upt_conv_Cons)
  show ?case
  proof (cases "RX_lines s ! rxAddr")
    case False
    have "rx_loop rxAddr (of_nat gT) (of_nat gR) buffer s =
          rx_loop (Suc rxAddr) (of_nat gT) (of_nat gR) buffer s"
      using lt False by (subst rx_loop.simps) simp
    also have "\<dots> = Inr (of_nat (gR + length (filter (\<lambda>r. RX_lines s ! r) [Suc rxAddr..<NUM_RX])),
          s\<lparr>heap := (heap s)(a := Some (store_cells (gT * NUM_RX) gR
                  (filter (\<lambda>r. RX_lines s ! r) [Suc rxAddr..<NUM_RX]) buffer cells))\<rparr>)"
      using Suc.prems lt by (intro Suc.hyps(1) n) simp_all
    finally show ?thesis using False by (simp add: upt)
  next
    case True
    let ?k = "gT * NUM_RX + gR"
    let ?v = "sample_of buffer rxAddr"
    let ?cells' = "cells[?k := ?v]"
    let ?s' = "s\<lparr>heap := (heap s)(a := Some ?cells')\<rparr>"
    have rd: "read_sample buffer rxAddr = Inr ?v"
      using lt Suc.prems(6) by (simp add: read_sample_def buffer_at_def sample_of_def)
    have gRle: "gR \<le> NUM_RX" using Suc.prems(8) lt by simp
    have idx: "unat (ucast (of_nat gT :: byte) * num_RX s + ucast (of_nat gR :: byte)) = ?k"
      using grid_index [OF Suc.prems(7) gRle] Suc.prems(2) by simp
    have "?k < gT * NUM_RX + NUM_RX" using Suc.prems(8) lt by simp
    also have "\<dots> = Suc gT * NUM_RX" by simp
    also have "\<dots> \<le> NUM_TX * NUM_RX" using Suc.prems(7) by (intro mult_le_mono1) simp
    finally have klt: "?k < length cells" using Suc.prems(5) by simp
    have st: "grid_store ?k ?v s = Inr ?s'"
      using Suc.prems(3,4) klt by (simp add: grid_store_def)
    have "rx_loop rxAddr (of_nat gT) (of_nat gR) buffer s =
          rx_loop (Suc rxAddr) (of_nat gT) (of_nat gR + 1) buffer ?s'"
      using lt True by (subst rx_loop.simps) (simp add: rd idx st)
    also have "of_nat gR + 1 = (of_nat (Suc gR) :: byte)" by simp
    also have "rx_loop (Suc rxAddr) (of_nat gT) (of_nat (Suc gR)) buffer ?s' =
      Inr (of_nat (Suc gR + length (filter (\<lambda>r. RX_lines ?s' ! r) [Suc rxAddr..<NUM_RX])),
          ?s'\<lparr>heap := (heap ?s')(a := Some (store_cells (gT * NUM_RX) (Suc gR)
                  (filter (\<lambda>r. RX_lines ?s' ! r) [Suc rxAddr..<NUM_RX]) buffer ?cells'))\<rparr>)"
      using Suc.prems lt by (intro Suc.hyps(1) n) simp_all
    finally show ?thesis using True by (simp add: upt)
  qed
qed

lemma unat_burst_size:
  "unat (of_nat (2 * NUM_RX) :: byte) = 2 * NUM_RX" "unat (2 * of_nat NUM_RX :: byte) = 2 * NUM_RX"
  by (simp_all add: NUM_RX_def)

lemma length_overlay: "length d \<le> length buffer \<Longrightarrow> length (overlay d buffer) = length buffer"
  by (simp add: overlay_def)

lemma length_store_cells: "length (store_cells base j rs buffer cells) = length cells"
  by (induction rs arbitrary: j cells) simp_all

lemma row_eq:
  fixes t :: nat
  assumes "length (RX_lines s) = NUM_RX" "num_RX s = of_nat NUM_RX"
    and "grid s = Some a" "heap s a = Some cells" "length cells = NUM_TX * NUM_RX"
    and "length buffer = 2 * NUM_RX" "gT < NUM_TX"
  defines "buffer' \<equiv> overlay (take (2 * NUM_RX) (deviceReply s (history s @ row_events t))) buffer"
  shows "(let (ignored, s1) = setRegister 0x01 (of_nat (NUM_TX - 1 - t)) s;
              s2 = delayMicroseconds 50 s1
          in case getRegisters 0x10 (of_nat (2 * NUM_RX)) buffer s2 of
               Inl e \<Rightarrow> Inl e
             | Inr (b, s3) \<Rightarrow>
                 (case rx_loop 0 (of_nat gT) 0 b s3 of
                    Inl e \<Rightarrow> Inl e
                  | Inr (gridRxAddr, s4) \<Rightarrow> K b s4)) =
         K buffer' (s\<lparr>txAddress := I2C_ADDRESS, txBuffer := [], rxBuffer := [],
              history := history s @ row_events t,
              heap := (heap s)(a := Some (store_cells (gT * NUM_RX) 0 (active (RX_lines s)) buffer' cells))\<rparr>)"
proof -
  let ?s2 = "s\<lparr>txAddress := I2C_ADDRESS, txBuffer := [],
        history := history s @ [Transmit I2C_ADDRESS [0x01, of_nat (NUM_TX - 1 - t)] False, DelayMicroseconds 50]\<rparr>"
  let ?s3 = "s\<lparr>txAddress := I2C_ADDRESS, txBuffer := [], rxBuffer := [],
        history := history s @ row_events t\<rparr>"
  have len: "length buffer' = 2 * NUM_RX"
    using assms(6) by (simp add: buffer'_def length_overlay)
  have s2: "(let (ignored, s1) = setRegister 0x01 (of_nat (NUM_TX - 1 - t)) s in delayMicroseconds 50 s1) = ?s2"
    by (simp add: setRegister_eq delayMicroseconds_def emit_def)
  have g: "getRegisters 0x10 (of_nat (2 * NUM_RX)) buffer ?s2 = Inr (buffer', ?s3)"
    using assms(6)
    by (subst getRegisters_eq)
       (simp_all add: unat_burst_size Let_def buffer'_def row_events_def delivered_def)
  have r: "rx_loop 0 (of_nat gT) (of_nat 0) buffer' ?s3 =
      Inr (of_nat (0 + length (filter (\<lambda>r. RX_lines ?s3 ! r) [0..<NUM_RX])),
           ?s3\<lparr>heap := (heap ?s3)(a := Some (store_cells (gT * NUM_RX) 0
                  (filter (\<lambda>r. RX_lines ?s3 ! r) [0..<NUM_RX]) buffer' cells))\<rparr>)"
    using assms(1-5,7) len by (intro rx_loop_eq) simp_all
  have act: "filter (\<lambda>r. RX_lines s ! r) [0..<NUM_RX] = active (RX_lines s)"
    using assms(1) by (simp add: active_def)
  show ?thesis
    using s2 g r by (simp add: Let_def split_def act)
qed

lemma length_burst_buffers [simp]: "length (burst_buffers rp h ts buffer) = length ts"
  by (induction ts arbitrary: h buffer) (simp_all add: Let_def)

lemma tx_loop_eq:
  assumes "length (TX_lines s) = NUM_TX" "length (RX_lines s) = NUM_RX" "num_RX s = of_nat NUM_RX"
    and "grid s = Some a" "heap s a = Some cells" "length cells = NUM_TX * NUM_RX"
    and "length buffer = 2 * NUM_RX" "gT \<le> txAddr" "txAddr \<le> NUM_TX"
    and "txAddress s = I2C_ADDRESS" "txBuffer s = []"
  shows "tx_loop txAddr (of_nat gT) buffer s =
     Inr (s\<lparr>rxBuffer := (if filter (\<lambda>t. TX_lines s ! t) [txAddr..<NUM_TX] = [] then rxBuffer s else []),
            history := history s @ concat (map row_events (filter (\<lambda>t. TX_lines s ! t) [txAddr..<NUM_TX])),
            heap := (heap s)(a := Some (store_rows NUM_RX gT (active (RX_lines s))
               (burst_buffers (deviceReply s) (history s) (filter (\<lambda>t. TX_lines s ! t) [txAddr..<NUM_TX]) buffer)
               cells))\<rparr>)"
  using assms
proof (induction "NUM_TX - txAddr" arbitrary: txAddr gT buffer s cells)
  case 0
  then have "txAddr = NUM_TX" by simp
  then show ?case using "0.prems"(5)
    by (subst tx_loop.simps) (simp add: fun_upd_idem)
next
  case (Suc n)
  then have lt: "txAddr < NUM_TX" and n: "n = NUM_TX - Suc txAddr" by simp_all
  have upt: "[txAddr..<NUM_TX] = txAddr # [Suc txAddr..<NUM_TX]"
    using lt by (simp add: upt_conv_Cons)
  show ?case
  proof (cases "TX_lines s ! txAddr")
    case False
    have "tx_loop txAddr (of_nat gT) buffer s = tx_loop (Suc txAddr) (of_nat gT) buffer s"
      using lt False by (subst tx_loop.simps) simp
    also have "\<dots> = Inr (s\<lparr>rxBuffer := (if filter (\<lambda>t. TX_lines s ! t) [Suc txAddr..<NUM_TX] = [] then rxBuffer s else []),
            history := history s @ concat (map row_events (filter (\<lambda>t. TX_lines s ! t) [Suc txAddr..<NUM_TX])),
            heap := (heap s)(a := Some (store_rows NUM_RX gT (active (RX_lines s))
               (burst_buffers (deviceReply s) (history s) (filter (\<lambda>t. TX_lines s ! t) [Suc txAddr..<NUM_TX]) buffer)
               cells))\<rparr>)"
      using Suc.prems lt by (intro Suc.hyps(1) n) simp_all
    finally show ?thesis using False by (simp add: upt)
  next
    case True
    let ?buffer' = "overlay (take (2 * NUM_RX) (deviceReply s (history s @ row_events txAddr))) buffer"
    let ?cells' = "store_cells (gT * NUM_RX) 0 (active (RX_lines s)) ?buffer' cells"
    let ?s' = "s\<lparr>txAddress := I2C_ADDRESS, txBuffer := [], rxBuffer := [],
              history := history s @ row_events txAddr,
              heap := (heap s)(a := Some ?cells')\<rparr>"
    let ?K = "\<lambda>b s4. tx_loop (txAddr + 1) (of_nat gT + 1) b s4"
    have gT: "gT < NUM_TX" using Suc.prems(8) lt by simp
    have len: "length ?buffer' = 2 * NUM_RX"
      using Suc.prems(7) by (simp add: length_overlay)
    have "tx_loop txAddr (of_nat gT) buffer s =
        (let (ignored, s1) = setRegister 0x01 (of_nat (NUM_TX - 1 - txAddr)) s;
              s2 = delayMicroseconds 50 s1
          in case getRegisters 0x10 (of_nat (2 * NUM_RX)) buffer s2 of
               Inl e \<Rightarrow> Inl e
             | Inr (b, s3) \<Rightarrow>
                 (case rx_loop 0 (of_nat gT) 0 b s3 of
                    Inl e \<Rightarrow> Inl e
                  | Inr (gridRxAddr, s4) \<Rightarrow> ?K b s4))"
      by (subst tx_loop.simps) (simp only: lt True if_True)
    also have "\<dots> = ?K ?buffer' ?s'"
      using Suc.prems(2-7) gT by (rule row_eq)
    also have "\<dots> = tx_loop (Suc txAddr) (of_nat (Suc gT)) ?buffer' ?s'"
      by (simp add: add.commute)
    also have "\<dots> = Inr (?s'\<lparr>rxBuffer := (if filter (\<lambda>t. TX_lines ?s' ! t) [Suc txAddr..<NUM_TX] = [] then rxBuffer ?s' else []),
            history := history ?s' @ concat (map row_events (filter (\<lambda>t. TX_lines ?s' ! t) [Suc txAddr..<NUM_TX])),
            heap := (heap ?s')(a := Some (store_rows NUM_RX (Suc gT) (active (RX_lines ?s'))
               (burst_buffers (deviceReply ?s') (history ?s') (filter (\<lambda>t. TX_lines ?s' ! t) [Suc txAddr..<NUM_TX]) ?buffer')
               ?cells'))\<rparr>)"
      using Suc.prems lt len by (intro Suc.hyps(1) n) (simp_all add: length_store_cells)
    finally show ?thesis using True Suc.prems(10,11) by (simp add: upt Let_def)
  qed
qed

lemma getRawData_eq:
  assumes "well_formed s" "grid s = Some a" "heap s a = Some cells" "length cells = NUM_TX * NUM_RX"
  shows "getRawData s =
     Inr (s\<lparr>txAddress := I2C_ADDRESS, txBuffer := [],
            rxBuffer := (if active (TX_lines s) = [] then rxBuffer s else []),
            history := history s @ Transmit I2C_ADDRESS [0x00, 0xC0] False #
                         concat (map row_events (active (TX_lines s))),
            heap := (heap s)(a := Some (store_rows NUM_RX 0 (active (RX_lines s))
               (burst_buffers (deviceReply s) (history s @ [Transmit I2C_ADDRESS [0x00, 0xC0] False])
                  (active (TX_lines s)) (replicate (2 * NUM_RX) None))
               cells))\<rparr>)"
proof -
  let ?s1 = "s\<lparr>txAddress := I2C_ADDRESS, txBuffer := [],
        history := history s @ [Transmit I2C_ADDRESS [0x00, 0xC0] False]\<rparr>"
  have act: "filter (\<lambda>t. TX_lines ?s1 ! t) [0..<NUM_TX] = active (TX_lines s)"
    using assms(1) by (simp add: active_def well_formed_def)
  have "getRawData s = tx_loop 0 (of_nat 0) (replicate (2 * NUM_RX) None) ?s1"
    by (simp add: getRawData_def setRegister_eq)
  also have "\<dots> = Inr (?s1\<lparr>rxBuffer := (if filter (\<lambda>t. TX_lines ?s1 ! t) [0..<NUM_TX] = [] then rxBuffer ?s1 else []),
            history := history ?s1 @ concat (map row_events (filter (\<lambda>t. TX_lines ?s1 ! t) [0..<NUM_TX])),
            heap := (heap ?s1)(a := Some (store_rows NUM_RX 0 (active (RX_lines ?s1))
               (burst_buffers (deviceReply ?s1) (history ?s1) (filter (\<lambda>t. TX_lines ?s1 ! t) [0..<NUM_TX])
                  (replicate (2 * NUM_RX) None))
               cells))\<rparr>)"
    using assms by (intro tx_loop_eq) (simp_all add: well_formed_def)
  finally show ?thesis unfolding act by simp
qed

lemma store_cells_nth:
  "base + j + length rs \<le> length cells \<Longrightarrow>
   store_cells base j rs buffer cells ! k =
     (if base + j \<le> k \<and> k < base + j + length rs then sample_of buffer (rs ! (k - (base + j)))
      else cells ! k)"
proof (induction rs arbitrary: j cells)
  case Nil
  show ?case by (cases "base + j \<le> k") simp_all
next
  case (Cons r rs)
  have "store_cells base j (r # rs) buffer cells ! k =
        store_cells base (Suc j) rs buffer (cells[base + j := sample_of buffer r]) ! k"
    by simp
  also have "\<dots> = (if base + Suc j \<le> k \<and> k < base + Suc j + length rs
                   then sample_of buffer (rs ! (k - (base + Suc j)))
                   else cells[base + j := sample_of buffer r] ! k)"
    using Cons.prems by (intro Cons.IH) simp
  also have "\<dots> = (if base + j \<le> k \<and> k < base + j + length (r # rs)
                   then sample_of buffer ((r # rs) ! (k - (base + j))) else cells ! k)"
  proof (cases "k = base + j")
    case True
    then show ?thesis using Cons.prems by simp
  next
    case False
    then show ?thesis by (auto simp: nth_Cons' Suc_diff_Suc)
  qed
  finally show ?case .
qed

lemma store_rows_other:
  assumes "length rs \<le> width" "(i + length bs) * width \<le> length cells"
    and "\<And>i' j. i \<le> i' \<Longrightarrow> i' < i + length bs \<Longrightarrow> j < length rs \<Longrightarrow> k \<noteq> i' * width + j"
  shows "store_rows width i rs bs cells ! k = cells ! k"
  using assms
proof (induction bs arbitrary: i cells)
  case Nil
  then show ?case by simp
next
  case (Cons b bs)
  have "i * width + length rs \<le> Suc i * width" using Cons.prems(1) by simp
  also have "\<dots> \<le> (i + length (b # bs)) * width" by (intro mult_le_mono1) simp
  finally have fit: "i * width + 0 + length rs \<le> length cells" using Cons.prems(2) by simp
  have "store_rows width i rs (b # bs) cells ! k =
        store_rows width (Suc i) rs bs (store_cells (i * width) 0 rs b cells) ! k"
    by simp
  also have "\<dots> = store_cells (i * width) 0 rs b cells ! k"
    using Cons.prems by (intro Cons.IH) (simp_all add: length_store_cells)
  also have "\<dots> = cells ! k"
  proof -
    have "\<not> (i * width + 0 \<le> k \<and> k < i * width + 0 + length rs)"
    proof
      assume h: "i * width + 0 \<le> k \<and> k < i * width + 0 + length rs"
      then have "k = i * width + (k - i * width)" "k - i * width < length rs" by arith+
      with Cons.prems(3) [of i "k - i * width"] show False by simp
    qed
    then show ?thesis by (simp only: store_cells_nth [OF fit] if_False)
  qed
  finally show ?case .
qed

lemma store_rows_nth:
  assumes "length rs \<le> width" "(i + length bs) * width \<le> length cells"
    and "i \<le> i'" "i' < i + length bs" "j < length rs"
  shows "store_rows width i rs bs cells ! (i' * width + j) = sample_of (bs ! (i' - i)) (rs ! j)"
  using assms
proof (induction bs arbitrary: i cells)
  case Nil
  then show ?case by simp
next
  case (Cons b bs)
  let ?cells' = "store_cells (i * width) 0 rs b cells"
  have "i * width + length rs \<le> Suc i * width" using Cons.prems(1) by simp
  also have "\<dots> \<le> (i + length (b # bs)) * width" by (intro mult_le_mono1) simp
  finally have fit: "i * width + 0 + length rs \<le> length cells" using Cons.prems(2) by simp
  show ?case
  proof (cases "i' = i")
    case True
    have "store_rows width i rs (b # bs) cells ! (i' * width + j) =
          store_rows width (Suc i) rs bs ?cells' ! (i * width + j)"
      using True by simp
    also have "\<dots> = ?cells' ! (i * width + j)"
    proof (rule store_rows_other)
      show "length rs \<le> width" by (fact Cons.prems(1))
      show "(Suc i + length bs) * width \<le> length ?cells'"
        using Cons.prems(2) by (simp add: length_store_cells)
      fix i'' j'' assume "Suc i \<le> i''" "j'' < length rs"
      have "i * width + j < Suc i * width" using Cons.prems(1,5) by simp
      also have "\<dots> \<le> i'' * width" using \<open>Suc i \<le> i''\<close> by (intro mult_le_mono1)
      finally show "i * width + j \<noteq> i'' * width + j''" by simp
    qed
    also have "\<dots> = sample_of b (rs ! j)"
      using Cons.prems(5) by (simp add: store_cells_nth [OF fit])
    finally show ?thesis using True by simp
  next
    case False
    then have "Suc i \<le> i'" using Cons.prems(3) by simp
    then have "store_rows width (Suc i) rs bs ?cells' ! (i' * width + j) =
          sample_of (bs ! (i' - Suc i)) (rs ! j)"
      using Cons.prems by (intro Cons.IH) (simp_all add: length_store_cells)
    then show ?thesis using \<open>Suc i \<le> i'\<close> by (simp add: nth_Cons' Suc_diff_Suc)
  qed
qed

lemma length_store_rows: "length (store_rows width i rs bs cells) = length cells"
  by (induction bs arbitrary: i cells) (simp_all add: length_store_cells)

lemma combine_add: "combine hi lo = ucast hi * 256 + ucast lo"
proof -
  have "push_bit 8 (ucast hi :: uint) + ucast lo = push_bit 8 (ucast hi) OR ucast lo"
    by (rule disjunctive_add) (auto simp: bit_simps dest: bit_imp_le_length)
  then show ?thesis by (simp add: combine_def push_bit_eq_mult mult.commute)
qed

lemma unat_combine: "unat (combine hi lo) = 256 * unat hi + unat lo"
proof -
  have "unat hi < 256" "unat lo < 256" using unsigned_less[of hi] unsigned_less[of lo] by simp_all
  then show ?thesis
    by (simp add: combine_add unat_word_ariths unat_ucast_byte)
qed

lemma hi_combine: "ucast (drop_bit 8 (combine hi lo)) = hi"
  by (rule bit_word_eqI) (auto simp: combine_def bit_simps dest: bit_imp_le_length)

lemma lo_combine: "ucast (combine hi lo) = lo"
  by (rule bit_word_eqI) (auto simp: combine_def bit_simps dest: bit_imp_le_length)

lemma init_eq:
  "init s =
     (if endStatus s (init_history (history s)) = 0 then
        (False, s\<lparr>isInit := True, txAddress := I2C_ADDRESS, txBuffer := [],
                  history := init_history (history s) @
                     [Delay 100, Transmit I2C_ADDRESS [0xA7, 0x04] False]\<rparr>)
      else
        (True, s\<lparr>txAddress := I2C_ADDRESS, txBuffer := [],
                 history := init_history (history s) @
                    [Println ''[UnipdSkin] Error: I2C Connection Failed. Check SDA/SCL.'']\<rparr>))"
  by (simp add: init_def init_history_def setRegister_eq Wire_begin_def Wire_setClock_def
      Wire_setTimeout_def delay_def Serial_println_def emit_def Let_def)

section \<open>Initialisation\<close>

text \<open>
  Claim C3. Whatever status the transport gives to the mode-register write of \<^verbatim>\<open>init\<close>:
  when it is not zero, \<^verbatim>\<open>init\<close> returns its failure value (\<^verbatim>\<open>return 1\<close>), \<open>isInit\<close>
  keeps its value and no member of the object changes (only the bus queues and the history
  do: the write itself and the message on the console); when it is zero, \<^verbatim>\<open>init\<close> sets
  \<open>isInit\<close>, writes 0x04 to register 0xA7 as its last action and returns its success value
  (\<^verbatim>\<open>return 0\<close>), whatever status that second write is given.
\<close>

theorem init_outcome:
  "(endStatus s (init_history (history s)) \<noteq> 0 \<longrightarrow>
      fst (init s) = True \<and> isInit (snd (init s)) = isInit s \<and>
      snd (init s) = s\<lparr>txAddress := I2C_ADDRESS, txBuffer := [],
                 history := init_history (history s) @
                    [Println ''[UnipdSkin] Error: I2C Connection Failed. Check SDA/SCL.'']\<rparr>) \<and>
   (endStatus s (init_history (history s)) = 0 \<longrightarrow>
      fst (init s) = False \<and> isInit (snd (init s)) = True \<and>
      snd (init s) = s\<lparr>isInit := True, txAddress := I2C_ADDRESS, txBuffer := [],
                  history := init_history (history s) @
                     [Delay 100, Transmit I2C_ADDRESS [0xA7, 0x04] False]\<rparr>)"
  by (simp add: init_eq)

theorem init_outcome_witness:
  "fst (init (UnipdSkin None nack_status ones_reply)) = True \<and>
   isInit (snd (init (UnipdSkin None nack_status ones_reply))) = False \<and>
   fst (init (UnipdSkin None ok_status ones_reply)) = False \<and>
   isInit (snd (init (UnipdSkin None ok_status ones_reply))) = True \<and>
   last (history (snd (init (UnipdSkin None ok_status ones_reply)))) = Transmit 0x38 [0xA7, 0x04] False"
  using init_outcome [of "UnipdSkin None nack_status ones_reply"]
    init_outcome [of "UnipdSkin None ok_status ones_reply"]
  by (simp add: UnipdSkin_def nack_status_def ok_status_def I2C_ADDRESS_def)

text \<open>
  Claim C10. The value \<^verbatim>\<open>init\<close> returns, read as a boolean, is true exactly when the
  mode-register write failed: \<open>False\<close> (0) is success and \<open>True\<close> (1) is failure. On an
  object that was not initialised before, it is therefore the negation of \<open>isInit\<close> after the
  call.
\<close>

theorem init_return_inverted:
  "fst (init s) = (endStatus s (init_history (history s)) \<noteq> 0) \<and>
   (\<not> isInit s \<longrightarrow> fst (init s) = (\<not> isInit (snd (init s))))"
  by (simp add: init_eq)

theorem init_return_inverted_witness:
  "\<not> isInit (UnipdSkin None ok_status ones_reply) \<and>
   fst (init (UnipdSkin None ok_status ones_reply)) = False \<and>
   isInit (snd (init (UnipdSkin None ok_status ones_reply))) \<and>
   \<not> isInit (UnipdSkin None nack_status ones_reply) \<and>
   fst (init (UnipdSkin None nack_status ones_reply)) = True \<and>
   \<not> isInit (snd (init (UnipdSkin None nack_status ones_reply)))"
  using init_return_inverted [of "UnipdSkin None nack_status ones_reply"]
    init_return_inverted [of "UnipdSkin None ok_status ones_reply"]
  by (auto simp: UnipdSkin_def nack_status_def ok_status_def)

section \<open>Reading a burst of registers\<close>

text \<open>
  Claim C7. For every call of \<^verbatim>\<open>getRegisters(reg, size, buffer)\<close> the bytes the transport
  delivers go into the buffer in the order of their arrival, from index 0 on; the loop stops
  when no byte is available any more, so the cells behind the delivered bytes keep what they
  held, and fewer than \<open>size\<close> cells are written when the device sends fewer bytes. (The
  delivered bytes are assumed to fit the caller's buffer: the C++ does not check it.)
\<close>

theorem getRegisters_drains:
  assumes "length (delivered s reg (unat sz)) \<le> length buffer"
  shows "\<exists>buffer' s'. getRegisters reg sz buffer s = Inr (buffer', s') \<and>
           length (delivered s reg (unat sz)) \<le> unat sz \<and> length buffer' = length buffer \<and>
           (\<forall>i < length (delivered s reg (unat sz)). buffer' ! i = Some (delivered s reg (unat sz) ! i)) \<and>
           (\<forall>i. length (delivered s reg (unat sz)) \<le> i \<longrightarrow> buffer' ! i = buffer ! i) \<and>
           Wire_available s' = 0"
proof -
  let ?d = "delivered s reg (unat sz)"
  have len: "length ?d \<le> unat sz" "length ?d \<le> length buffer"
    using assms(1) by (simp_all add: delivered_def)
  have "getRegisters reg sz buffer s =
     Inr (overlay ?d buffer,
          s\<lparr>txAddress := I2C_ADDRESS, txBuffer := [], rxBuffer := [],
            history := history s @ [Transmit I2C_ADDRESS [reg] False, Request I2C_ADDRESS (unat sz)]\<rparr>)"
    using assms(1) by (rule getRegisters_eq)
  moreover have "\<forall>i < length ?d. overlay ?d buffer ! i = Some (?d ! i)"
    by (simp add: overlay_def nth_append)
  moreover have "\<forall>i. length ?d \<le> i \<longrightarrow> overlay ?d buffer ! i = buffer ! i"
    using len(2) by (auto simp: overlay_def nth_append)
  ultimately show ?thesis
    using len by (simp add: length_overlay Wire_available_def)
qed

theorem getRegisters_drains_witness:
  "\<exists>buffer' s'. getRegisters 0x10 4 [None, None, Some 7, None] (UnipdSkin None ok_status short_reply) =
       Inr (buffer', s') \<and>
     delivered (UnipdSkin None ok_status short_reply) 0x10 4 = [0xAB, 0xCD] \<and>
     buffer' ! 0 = Some 0xAB \<and> buffer' ! 1 = Some 0xCD \<and> buffer' ! 2 = Some 7 \<and> buffer' ! 3 = None"
proof -
  have d: "delivered (UnipdSkin None ok_status short_reply) 0x10 (unat (4::byte)) = [0xAB, 0xCD]"
    by (simp add: delivered_def UnipdSkin_def short_reply_def)
  have "length (delivered (UnipdSkin None ok_status short_reply) 0x10 (unat (4::byte)))
          \<le> length [None, None, Some (7::byte), None]" unfolding d by simp
  from getRegisters_drains [OF this]
  obtain buffer' s' where
    g: "getRegisters 0x10 4 [None, None, Some 7, None] (UnipdSkin None ok_status short_reply) = Inr (buffer', s')"
    and a: "\<forall>i < length [0xAB, 0xCD :: byte]. buffer' ! i = Some ([0xAB, 0xCD] ! i)"
    and b: "\<forall>i. length [0xAB, 0xCD :: byte] \<le> i \<longrightarrow> buffer' ! i = [None, None, Some 7, None] ! i"
    unfolding d by blast
  have "buffer' ! 0 = Some 0xAB" "buffer' ! 1 = Some 0xCD" using a by simp_all
  moreover have "buffer' ! 2 = Some 7" "buffer' ! 3 = None" using b by simp_all
  ultimately show ?thesis using g d by simp
qed

section \<open>Allocation of the grid\<close>

lemma useRawData_eq:
  "useRawData useRaw s =
     (let s2 = (if grid s = None
                then s\<lparr>rawData := useRaw, grid := Some (allocs s),
                       heap := (heap s)(allocs s := Some (replicate (unat (num_TX s * num_RX s)) None)),
                       allocs := Suc (allocs s)\<rparr>
                else s\<lparr>rawData := useRaw\<rparr>)
      in if isInit s \<and> useRaw
         then s2\<lparr>txAddress := I2C_ADDRESS, txBuffer := [],
                 history := history s @ [Transmit I2C_ADDRESS [0x00, MODE_TEST] False,
                    Println ''[UnipdSkin] Mode set to Raw Data Stream'']\<rparr>
         else s2)"
  by (simp add: useRawData_def useRawData_assign_def useRawData_allocate_def useRawData_mode_def
      new_array_def setRegister_eq Serial_println_def emit_def Let_def)

lemma useRawData_fields:
  "grid (useRawData b s) = (if grid s = None then Some (allocs s) else grid s)"
  "heap (useRawData b s) =
     (if grid s = None
      then (heap s)(allocs s := Some (replicate (unat (num_TX s * num_RX s)) None)) else heap s)"
  "allocs (useRawData b s) = (if grid s = None then Suc (allocs s) else allocs s)"
  "rawData (useRawData b s) = b"
  "isInit (useRawData b s) = isInit s"
  "num_TX (useRawData b s) = num_TX s" "num_RX (useRawData b s) = num_RX s"
  "TX_lines (useRawData b s) = TX_lines s" "RX_lines (useRawData b s) = RX_lines s"
  "endStatus (useRawData b s) = endStatus s" "deviceReply (useRawData b s) = deviceReply s"
  by (simp_all add: useRawData_eq Let_def)

lemma fold_useRawData_keeps:
  "grid s \<noteq> None \<Longrightarrow>
   grid (fold useRawData bs s) = grid s \<and> heap (fold useRawData bs s) = heap s \<and>
   allocs (fold useRawData bs s) = allocs s"
  by (induction bs arbitrary: s) (auto simp: useRawData_fields)

lemma unat_dims: "unat (of_nat NUM_TX * of_nat NUM_RX :: uint) = NUM_TX * NUM_RX"
  by (simp add: NUM_TX_def NUM_RX_def)

text \<open>
  On an object whose grid pointer is null, the first call of \<^verbatim>\<open>useRawData\<close>, with either
  argument, allocates one array of \<^verbatim>\<open>NUM_TX * NUM_RX\<close> = 252 cells and points \<open>grid\<close> to
  it; after any further calls of \<^verbatim>\<open>useRawData\<close> the pointer, the heap and the number of
  allocations are the same.
\<close>

lemma allocates_once_from_null:
  assumes "grid s = None" "well_formed s"
  shows "grid (useRawData b s) = Some (allocs s) \<and>
         heap (useRawData b s) = (heap s)(allocs s := Some (replicate (NUM_TX * NUM_RX) None)) \<and>
         allocs (useRawData b s) = Suc (allocs s) \<and>
         grid (fold useRawData bs (useRawData b s)) = Some (allocs s) \<and>
         heap (fold useRawData bs (useRawData b s)) = heap (useRawData b s) \<and>
         allocs (fold useRawData bs (useRawData b s)) = Suc (allocs s)"
proof -
  have sz: "unat (num_TX s * num_RX s) = NUM_TX * NUM_RX"
    using assms(2) by (simp add: well_formed_def unat_dims)
  have first: "grid (useRawData b s) = Some (allocs s)"
    "heap (useRawData b s) = (heap s)(allocs s := Some (replicate (NUM_TX * NUM_RX) None))"
    "allocs (useRawData b s) = Suc (allocs s)"
    using assms(1) sz by (simp_all add: useRawData_fields)
  have "grid (useRawData b s) \<noteq> None" using first(1) by simp
  from fold_useRawData_keeps [OF this, of bs] first show ?thesis by simp
qed

lemma init_fields:
  "grid (snd (init s)) = grid s" "heap (snd (init s)) = heap s" "allocs (snd (init s)) = allocs s"
  "rawData (snd (init s)) = rawData s"
  "num_TX (snd (init s)) = num_TX s" "num_RX (snd (init s)) = num_RX s"
  "TX_lines (snd (init s)) = TX_lines s" "RX_lines (snd (init s)) = RX_lines s"
  by (simp_all add: init_eq)







lemma getRawData_dangling:
  assumes "grid s = Some a" "heap s a = None" "TX_lines s ! 0" "RX_lines s ! 0"
  shows "getRawData s = Inl (DanglingPointer a)"
proof -
  let ?s1 = "s\<lparr>txAddress := I2C_ADDRESS, txBuffer := [],
        history := history s @ [Transmit I2C_ADDRESS [0x00, 0xC0] False]\<rparr>"
  let ?buffer = "replicate (2 * NUM_RX) None :: byte option list"
  let ?s2 = "delayMicroseconds 50 (snd (setRegister 0x01 (of_nat (NUM_TX - 1 - 0)) ?s1))"
  let ?d = "delivered ?s2 0x10 (unat (of_nat (2 * NUM_RX) :: byte))"
  let ?s3 = "?s2\<lparr>txAddress := I2C_ADDRESS, txBuffer := [], rxBuffer := [],
            history := history ?s2 @ [Transmit I2C_ADDRESS [0x10] False,
               Request I2C_ADDRESS (unat (of_nat (2 * NUM_RX) :: byte))]\<rparr>"
  have "length ?d \<le> length ?buffer" by (simp add: delivered_def unat_burst_size)
  then have g: "getRegisters 0x10 (of_nat (2 * NUM_RX)) ?buffer ?s2 = Inr (overlay ?d ?buffer, ?s3)"
    by (rule getRegisters_eq)
  have len: "length (overlay ?d ?buffer) = 2 * NUM_RX"
    by (simp add: length_overlay delivered_def unat_burst_size)
  have f: "grid ?s3 = Some a" "heap ?s3 a = None" "RX_lines ?s3 ! 0"
    using assms by (simp_all add: setRegister_eq delayMicroseconds_def emit_def)
  have r: "rx_loop 0 0 0 (overlay ?d ?buffer) ?s3 = Inl (DanglingPointer a)"
    using f len
    by (subst rx_loop.simps)
       (simp add: NUM_RX_def read_sample_def buffer_at_def grid_store_def)
  have "tx_loop 0 0 ?buffer ?s1 = Inl (DanglingPointer a)"
    using assms(3) g r by (subst tx_loop.simps) (simp add: NUM_TX_def Let_def split_def)
  then show ?thesis by (simp add: getRawData_def setRegister_eq)
qed

text \<open>
  Claim C4 says that the grid buffer of \<^verbatim>\<open>NUM_TX * NUM_RX\<close> cells is allocated exactly
  once, on the first call of \<^verbatim>\<open>useRawData\<close>. The header gives \<open>grid\<close> no initialiser, and
  on an object whose pointer starts with a value that is not null the code does otherwise:
  the null check fails, the first call and every later call of \<^verbatim>\<open>useRawData\<close> allocate
  nothing, the pointer keeps leading to no array, and the first scan stores through it.
\<close>

theorem uninitialised_grid_not_allocated:
  "grid stack_skin = Some 7 \<and> heap stack_skin 7 = None \<and> allocs stack_skin = 0 \<and>
   allocs (useRawData True stack_skin) = 0 \<and>
   grid (useRawData True stack_skin) = Some 7 \<and>
   heap (useRawData True stack_skin) 7 = None \<and>
   allocs (fold useRawData [False, True] (useRawData True stack_skin)) = 0 \<and>
   heap (fold useRawData [False, True] (useRawData True stack_skin)) 7 = None \<and>
   fault_of (run [Init, UseRawData True, Updated] stack_skin) = Some (DanglingPointer 7)"
proof -
  let ?s = "useRawData True (snd (init stack_skin))"
  have f: "grid ?s = Some 7" "heap ?s 7 = None" "TX_lines ?s ! 0" "RX_lines ?s ! 0"
    "isInit ?s" "rawData ?s"
    by (simp_all add: useRawData_fields init_fields init_eq stack_skin_def UnipdSkin_def
        ok_status_def NUM_TX_def NUM_RX_def Let_def useRawData_eq)
  have "updated ?s = Inl (DanglingPointer 7)"
    using f(5,6) getRawData_dangling [OF f(1-4)] by (simp add: updated_def)
  then have "fault_of (run [Init, UseRawData True, Updated] stack_skin) = Some (DanglingPointer 7)"
    by (simp add: step_def fault_of_def)
  moreover have "grid stack_skin = Some 7 \<and> heap stack_skin 7 = None \<and> allocs stack_skin = 0 \<and>
   allocs (useRawData True stack_skin) = 0 \<and>
   grid (useRawData True stack_skin) = Some 7 \<and>
   heap (useRawData True stack_skin) 7 = None \<and>
   allocs (fold useRawData [False, True] (useRawData True stack_skin)) = 0 \<and>
   heap (fold useRawData [False, True] (useRawData True stack_skin)) 7 = None"
    by (simp add: useRawData_fields stack_skin_def UnipdSkin_def)
  ultimately show ?thesis by simp
qed

section \<open>The scan as a whole\<close>

lemma allocatedD:
  "allocated s \<Longrightarrow> \<exists>a cells. grid s = Some a \<and> heap s a = Some cells \<and> length cells = NUM_TX * NUM_RX"
  by (auto simp: allocated_def grid_cells_def split: option.splits)

lemma active_set: "t \<in> set (active xs) \<longleftrightarrow> t < length xs \<and> xs ! t"
  by (auto simp: active_def)

lemma countActive_le: "countActive xs \<le> length xs"
  using length_filter_le [of "\<lambda>k. xs ! k" "[0..<length xs]"] by (simp add: countActive_def active_def)

lemma active_replicate: "active (replicate n True) = [0..<n]"
  by (simp add: active_def cong: filter_cong)

lemma written_bound:
  assumes "m \<le> NUM_TX" "n \<le> NUM_RX" "k \<in> written m n"
  shows "k < NUM_TX * NUM_RX"
proof -
  from assms(3) obtain i j where k: "k = i * NUM_RX + j" and ij: "i < m" "j < n"
    by (auto simp: written_def)
  have "k < Suc i * NUM_RX" using k ij(2) assms(2) by simp
  also have "\<dots> \<le> NUM_TX * NUM_RX" using ij(1) assms(1) by (intro mult_le_mono1) simp
  finally show ?thesis .
qed

lemma card_written:
  assumes "n \<le> NUM_RX"
  shows "card (written m n) = m * n"
proof -
  have eq: "written m n = (\<lambda>(i, j). i * NUM_RX + j) ` ({..<m} \<times> {..<n})"
    by (auto simp: written_def image_iff)
  have inj: "inj_on (\<lambda>(i, j). i * NUM_RX + j) ({..<m} \<times> {..<n})"
  proof (rule inj_onI)
    fix p q
    assume a: "p \<in> {..<m} \<times> {..<n}" "q \<in> {..<m} \<times> {..<n}"
      and e: "(case p of (i, j) \<Rightarrow> i * NUM_RX + j) = (case q of (i, j) \<Rightarrow> i * NUM_RX + j)"
    obtain i j i' j' where pq: "p = (i, j)" "q = (i', j')" by (cases p, cases q) blast
    have j: "j < NUM_RX" "j' < NUM_RX" using a assms pq by simp_all
    have "(i * NUM_RX + j) div NUM_RX = i" "(i' * NUM_RX + j') div NUM_RX = i'"
      using j by simp_all
    moreover have e': "i * NUM_RX + j = i' * NUM_RX + j'" using e pq by simp
    ultimately have "i = i'" by simp
    with e' show "p = q" using pq by simp
  qed
  show ?thesis unfolding eq by (simp add: card_image [OF inj])
qed

lemma scan_eq:
  assumes "well_formed s" "allocated s"
  shows "\<exists>s' a cells cells'.
     getRawData s = Inr s' \<and> grid s = Some a \<and> heap s a = Some cells \<and>
     length cells = NUM_TX * NUM_RX \<and>
     s' = s\<lparr>txAddress := I2C_ADDRESS, txBuffer := [],
            rxBuffer := (if active (TX_lines s) = [] then rxBuffer s else []),
            history := history s @ Transmit I2C_ADDRESS [0x00, 0xC0] False #
                         concat (map row_events (active (TX_lines s))),
            heap := (heap s)(a := Some cells')\<rparr> \<and>
     length cells' = NUM_TX * NUM_RX \<and>
     (\<forall>i < countActive (TX_lines s). \<forall>j < countActive (RX_lines s).
         cells' ! (i * NUM_RX + j) = sample_of (scan_bursts s ! i) (active (RX_lines s) ! j)) \<and>
     (\<forall>k. k \<notin> written (countActive (TX_lines s)) (countActive (RX_lines s)) \<longrightarrow>
         cells' ! k = cells ! k)"
proof -
  from allocatedD [OF assms(2)] obtain a cells where
    g: "grid s = Some a" "heap s a = Some cells" "length cells = NUM_TX * NUM_RX" by blast
  let ?rs = "active (RX_lines s)"
  let ?cells' = "store_rows NUM_RX 0 ?rs (scan_bursts s) cells"
  have rs: "length ?rs \<le> NUM_RX"
    using countActive_le [of "RX_lines s"] assms(1) by (simp add: countActive_def well_formed_def)
  have ts: "length (active (TX_lines s)) \<le> NUM_TX"
    using countActive_le [of "TX_lines s"] assms(1) by (simp add: countActive_def well_formed_def)
  have fits: "(0 + length (scan_bursts s)) * NUM_RX \<le> length cells"
    using ts g(3) by (simp add: scan_bursts_def)
  have nth: "\<forall>i < countActive (TX_lines s). \<forall>j < countActive (RX_lines s).
         ?cells' ! (i * NUM_RX + j) = sample_of (scan_bursts s ! i) (?rs ! j)"
  proof (intro allI impI)
    fix i j assume "i < countActive (TX_lines s)" "j < countActive (RX_lines s)"
    then have "0 \<le> i" "i < 0 + length (scan_bursts s)" "j < length ?rs"
      by (simp_all add: countActive_def scan_bursts_def)
    from store_rows_nth [OF rs fits this] show
      "?cells' ! (i * NUM_RX + j) = sample_of (scan_bursts s ! i) (?rs ! j)" by simp
  qed
  have other: "\<forall>k. k \<notin> written (countActive (TX_lines s)) (countActive (RX_lines s)) \<longrightarrow>
         ?cells' ! k = cells ! k"
  proof (intro allI impI)
    fix k assume k: "k \<notin> written (countActive (TX_lines s)) (countActive (RX_lines s))"
    show "?cells' ! k = cells ! k"
    proof (rule store_rows_other [OF rs fits])
      fix i' j assume "0 \<le> i'" "i' < 0 + length (scan_bursts s)" "j < length ?rs"
      then have "i' * NUM_RX + j \<in> written (countActive (TX_lines s)) (countActive (RX_lines s))"
        by (auto simp: written_def countActive_def scan_bursts_def)
      with k show "k \<noteq> i' * NUM_RX + j" by blast
    qed
  qed
  have "getRawData s = Inr (s\<lparr>txAddress := I2C_ADDRESS, txBuffer := [],
            rxBuffer := (if active (TX_lines s) = [] then rxBuffer s else []),
            history := history s @ Transmit I2C_ADDRESS [0x00, 0xC0] False #
                         concat (map row_events (active (TX_lines s))),
            heap := (heap s)(a := Some ?cells')\<rparr>)"
    using getRawData_eq [OF assms(1) g] by (simp add: scan_bursts_def)
  with g nth other show ?thesis
    by (intro exI [of _ ?cells'] exI [of _ a] exI [of _ cells] exI conjI)
       (simp_all add: length_store_rows)
qed

lemma raw_skin_ok: "well_formed raw_skin" "allocated raw_skin" "isInit raw_skin" "rawData raw_skin"
  by (simp_all add: raw_skin_def useRawData_fields init_eq ok_status_def UnipdSkin_def
      well_formed_def allocated_def grid_cells_def unat_dims)

text \<open>
  Claim C9. For every configuration of the two masks, a scan of an object whose grid has the
  \<^verbatim>\<open>NUM_TX * NUM_RX\<close> = 252 cells of the allocation runs through without a fault: no store
  through the grid pointer and no read of the 24-byte burst buffer is out of range. The
  indices stored to are \<open>i * NUM_RX + j\<close> with \<open>i\<close> below the number of active TX lines and
  \<open>j\<close> below the number of active RX lines, all below 252; the index expression of the source,
  computed in \<^verbatim>\<open>unsigned int\<close> from the two byte counters, does not wrap; and the offsets
  \<open>2r\<close> and \<open>2r + 1\<close> are below \<^verbatim>\<open>2 * NUM_RX\<close>.
\<close>

theorem scan_in_bounds:
  assumes "well_formed s" "allocated s"
  shows "(\<exists>s'. getRawData s = Inr s' \<and> well_formed s' \<and> allocated s') \<and>
         countActive (TX_lines s) \<le> NUM_TX \<and> countActive (RX_lines s) \<le> NUM_RX \<and>
         (\<forall>k \<in> written (countActive (TX_lines s)) (countActive (RX_lines s)). k < NUM_TX * NUM_RX) \<and>
         (\<forall>gT < NUM_TX. \<forall>gR < NUM_RX.
            unat (ucast (of_nat gT :: byte) * num_RX s + ucast (of_nat gR :: byte)) = gT * NUM_RX + gR \<and>
            gT * NUM_RX + gR < NUM_TX * NUM_RX) \<and>
         (\<forall>r < NUM_RX. 2 * r < 2 * NUM_RX \<and> 2 * r + 1 < 2 * NUM_RX) \<and>
         NUM_TX * NUM_RX = 252"
proof -
  have m: "countActive (TX_lines s) \<le> NUM_TX" and n: "countActive (RX_lines s) \<le> NUM_RX"
    using countActive_le [of "TX_lines s"] countActive_le [of "RX_lines s"] assms(1)
    by (simp_all add: well_formed_def)
  from scan_eq [OF assms] obtain s' a cells cells' where
    s': "getRawData s = Inr s'" "grid s = Some a"
      "s' = s\<lparr>txAddress := I2C_ADDRESS, txBuffer := [],
            rxBuffer := (if active (TX_lines s) = [] then rxBuffer s else []),
            history := history s @ Transmit I2C_ADDRESS [0x00, 0xC0] False #
                         concat (map row_events (active (TX_lines s))),
            heap := (heap s)(a := Some cells')\<rparr>"
      "length cells' = NUM_TX * NUM_RX"
    by blast
  have "well_formed s'" "allocated s'"
    using assms(1) s'(2,4) unfolding s'(3) by (simp_all add: well_formed_def allocated_def grid_cells_def)
  then have 1: "\<exists>s'. getRawData s = Inr s' \<and> well_formed s' \<and> allocated s'" using s'(1) by blast
  have 2: "\<forall>k \<in> written (countActive (TX_lines s)) (countActive (RX_lines s)). k < NUM_TX * NUM_RX"
    using written_bound [OF m n] by blast
  have 3: "\<forall>gT < NUM_TX. \<forall>gR < NUM_RX.
            unat (ucast (of_nat gT :: byte) * num_RX s + ucast (of_nat gR :: byte)) = gT * NUM_RX + gR \<and>
            gT * NUM_RX + gR < NUM_TX * NUM_RX"
  proof (intro allI impI)
    fix gT gR assume g: "gT < NUM_TX" "gR < NUM_RX"
    have "gT * NUM_RX + gR < Suc gT * NUM_RX" using g(2) by simp
    also have "\<dots> \<le> NUM_TX * NUM_RX" using g(1) by (intro mult_le_mono1) simp
    finally have "gT * NUM_RX + gR < NUM_TX * NUM_RX" .
    moreover have "unat (ucast (of_nat gT :: byte) * num_RX s + ucast (of_nat gR :: byte)) = gT * NUM_RX + gR"
      using grid_index [of gT gR] g assms(1) by (simp add: well_formed_def)
    ultimately show "unat (ucast (of_nat gT :: byte) * num_RX s + ucast (of_nat gR :: byte)) = gT * NUM_RX + gR \<and>
            gT * NUM_RX + gR < NUM_TX * NUM_RX" by simp
  qed
  have 4: "\<forall>r < NUM_RX. 2 * r < 2 * NUM_RX \<and> 2 * r + 1 < 2 * NUM_RX" by simp
  have 5: "NUM_TX * NUM_RX = 252" by (simp add: NUM_TX_def NUM_RX_def)
  from 1 m n 2 3 4 5 show ?thesis by blast
qed

theorem scan_in_bounds_witness:
  "well_formed raw_skin \<and> allocated raw_skin \<and> (\<exists>s'. getRawData raw_skin = Inr s') \<and>
   countActive (TX_lines raw_skin) \<le> 21 \<and> countActive (RX_lines raw_skin) \<le> 12"
  using scan_in_bounds [OF raw_skin_ok(1,2)] raw_skin_ok(1,2)
  by (auto simp: NUM_TX_def NUM_RX_def)

section \<open>Addressing of the TX lines\<close>

lemma tx_selects_rows:
  "tx_selects (concat (map row_events ts)) = map (\<lambda>t. of_nat (NUM_TX - 1 - t)) ts"
  by (induction ts) (simp_all add: row_events_def)

lemma unat_select:
  "unat (of_nat (NUM_TX - 1 - t) :: byte) = NUM_TX - 1 - t"
  "unat (of_nat (NUM_TX - Suc t) :: byte) = NUM_TX - Suc t"
  by (rule unat_of_nat_byte, simp add: NUM_TX_def)+

text \<open>
  Claim C5. In a scan, for every TX line \<open>t\<close> below \<^verbatim>\<open>NUM_TX\<close> that the mask includes, the
  value written to the TX-select register 0x01 is \<^verbatim>\<open>NUM_TX - 1 - t\<close>: the values written
  to that register during the scan, in order, are \<open>NUM_TX - 1 - t\<close> for the active lines \<open>t\<close>
  in ascending order, and nothing else. With \<^verbatim>\<open>NUM_TX\<close> = 21 and all lines active they are
  20 for \<open>t = 0\<close> down to 0 for \<open>t = 20\<close>.
\<close>

theorem tx_select_inverted:
  assumes "well_formed s" "allocated s"
  shows "\<exists>s'. getRawData s = Inr s' \<and>
           map unat (tx_selects (drop (length (history s)) (history s'))) =
             map (\<lambda>t. NUM_TX - 1 - t) (active (TX_lines s)) \<and>
           (\<forall>t \<in> set (active (TX_lines s)). t < NUM_TX)"
proof -
  from scan_eq [OF assms] obtain s' a cells' where
    s': "getRawData s = Inr s'"
      "s' = s\<lparr>txAddress := I2C_ADDRESS, txBuffer := [],
            rxBuffer := (if active (TX_lines s) = [] then rxBuffer s else []),
            history := history s @ Transmit I2C_ADDRESS [0x00, 0xC0] False #
                         concat (map row_events (active (TX_lines s))),
            heap := (heap s)(a := Some cells')\<rparr>"
    by blast
  have lt: "\<forall>t \<in> set (active (TX_lines s)). t < NUM_TX"
    using assms(1) by (simp add: active_set well_formed_def)
  have "tx_selects (drop (length (history s)) (history s')) =
        map (\<lambda>t. of_nat (NUM_TX - 1 - t)) (active (TX_lines s))"
    unfolding s'(2) by (simp add: tx_selects_rows)
  then have "map unat (tx_selects (drop (length (history s)) (history s'))) =
        map (\<lambda>t. NUM_TX - 1 - t) (active (TX_lines s))"
    using lt by (simp add: unat_select)
  with s'(1) lt show ?thesis by blast
qed

theorem tx_select_inverted_witness:
  "well_formed raw_skin \<and> allocated raw_skin \<and>
   map unat (tx_selects (drop (length (history raw_skin)) (history (scanned raw_skin)))) =
     [20, 19, 18, 17, 16, 15, 14, 13, 12, 11, 10, 9, 8, 7, 6, 5, 4, 3, 2, 1, 0]"
proof -
  have act: "map (\<lambda>t. NUM_TX - 1 - t) (active (TX_lines raw_skin)) =
     [20, 19, 18, 17, 16, 15, 14, 13, 12, 11, 10, 9, 8, 7, 6, 5, 4, 3, 2, 1, 0]"
    by (simp add: raw_skin_def useRawData_fields init_eq ok_status_def UnipdSkin_def
        active_replicate NUM_TX_def upt_rec [of _ "numeral _"])
  from tx_select_inverted [OF raw_skin_ok(1,2)] obtain s' where
    "getRawData raw_skin = Inr s'"
    "map unat (tx_selects (drop (length (history raw_skin)) (history s'))) =
             map (\<lambda>t. NUM_TX - 1 - t) (active (TX_lines raw_skin))"
    by blast
  then show ?thesis using raw_skin_ok(1,2) act by (simp add: scanned_def)
qed

section \<open>The layout of the grid after a scan\<close>

lemma burst_buffers_nth:
  "i < length ts \<Longrightarrow>
   burst_buffers rp h ts buffer ! i =
     overlay (take (2 * NUM_RX) (rp (h @ concat (map row_events (take i ts)) @ row_events (ts ! i))))
       (if i = 0 then buffer else burst_buffers rp h ts buffer ! (i - 1))"
proof (induction ts arbitrary: h buffer i)
  case Nil
  then show ?case by simp
next
  case (Cons t ts)
  show ?case
  proof (cases i)
    case 0
    then show ?thesis by (simp add: Let_def)
  next
    case (Suc n)
    then have n: "n < length ts" using Cons.prems by simp
    show ?thesis
    proof (cases n)
      case 0
      then show ?thesis using Suc n Cons.IH [OF n] by (simp add: Let_def)
    next
      case (Suc m)
      then show ?thesis using \<open>i = Suc n\<close> n Cons.IH [OF n] by (simp add: Let_def)
    qed
  qed
qed

lemma scan_bursts_nth:
  "i < countActive (TX_lines s) \<Longrightarrow>
   scan_bursts s ! i =
     overlay (take (2 * NUM_RX) (row_reply s i))
       (if i = 0 then replicate (2 * NUM_RX) None else scan_bursts s ! (i - 1))"
  using burst_buffers_nth [of i "active (TX_lines s)" "deviceReply s"
      "history s @ [Transmit I2C_ADDRESS [0x00, 0xC0] False]" "replicate (2 * NUM_RX) None"]
  by (simp add: scan_bursts_def row_reply_def countActive_def)

lemma overlay_full:
  "n \<le> length d \<Longrightarrow> length buffer = n \<Longrightarrow> overlay (take n d) buffer = map Some (take n d)"
  by (simp add: overlay_def)

lemma length_burst_buffer:
  "i < length ts \<Longrightarrow> length buffer = 2 * NUM_RX \<Longrightarrow>
   length (burst_buffers rp h ts buffer ! i) = 2 * NUM_RX"
proof (induction ts arbitrary: h buffer i)
  case Nil
  then show ?case by simp
next
  case (Cons t ts)
  then show ?case by (cases i) (simp_all add: Let_def length_overlay)
qed

lemma length_scan_burst:
  "i < countActive (TX_lines s) \<Longrightarrow> length (scan_bursts s ! i) = 2 * NUM_RX"
  by (simp add: scan_bursts_def countActive_def length_burst_buffer)

lemma sample_of_full:
  assumes "i < countActive (TX_lines s)" "2 * NUM_RX \<le> length (row_reply s i)" "r < NUM_RX"
  shows "sample_of (scan_bursts s ! i) r =
         Some (combine (row_reply s i ! (2 * r)) (row_reply s i ! (2 * r + 1)))"
proof -
  have len: "length (if i = 0 then replicate (2 * NUM_RX) None else scan_bursts s ! (i - 1)) = 2 * NUM_RX"
    using assms(1) length_scan_burst [of "i - 1" s] by simp
  have "scan_bursts s ! i = map Some (take (2 * NUM_RX) (row_reply s i))"
    using scan_bursts_nth [OF assms(1)] overlay_full [OF assms(2) len] by simp
  then show ?thesis using assms(2,3) by (simp add: sample_of_def combine_cells_def)
qed

lemma active_nth_lt: "j < countActive xs \<Longrightarrow> active xs ! j < length xs \<and> xs ! (active xs ! j)"
  using active_set [of "active xs ! j" xs] by (simp add: countActive_def)

text \<open>
  Claim C1 as first stated places the sample of compacted position \<open>(i, j)\<close> row-major over
  the active-line counts, at the flat index \<open>i * countActive rx + j\<close>. With RX line 0 left
  out and TX lines 0 and 1 active, that index for position \<open>(1, 0)\<close> is 11, a cell the scan
  never writes; the sample read for TX line 1 and RX line 1 is at index 12.
\<close>

theorem dense_layout_counterexample:
  "well_formed gap_skin \<and> allocated gap_skin \<and> allocated (scanned gap_skin) \<and>
   countActive (TX_lines gap_skin) = 2 \<and> countActive (RX_lines gap_skin) = 11 \<and>
   active (TX_lines gap_skin) ! 1 = 1 \<and> active (RX_lines gap_skin) ! 0 = 1 \<and>
   sample_of (scan_bursts gap_skin ! 1) (active (RX_lines gap_skin) ! 0) = Some 0x0101 \<and>
   cell (scanned gap_skin) (1 * countActive (RX_lines gap_skin) + 0) = None \<and>
   cell (scanned gap_skin) (1 * countActive (RX_lines gap_skin) + 0) \<noteq>
     sample_of (scan_bursts gap_skin ! 1) (active (RX_lines gap_skin) ! 0) \<and>
   cell (scanned gap_skin) (1 * NUM_RX + 0) = Some 0x0101"
  by code_simp

text \<open>
  Claim C1, as amended. For every configuration of the two masks (arrays of 21 and 12
  entries; the dimension member \<open>num_RX\<close> holds 12, as the header initialises it and every
  member function leaves it), one scan of an object whose grid is allocated writes exactly
  \<open>countActive tx * countActive rx\<close> cells and leaves every other cell as it was. The
  sample of compacted position \<open>(i, j)\<close> is stored at the flat index \<open>i * NUM_RX + j\<close>: row-major
  with the full RX width 12 as the length of a row, whatever the number of active RX lines.
  It is the sample decoded for the physical RX line that is the \<open>j\<close>-th true entry of
  \<open>RX_lines\<close>, from the burst buffer as it stands after the burst read that follows the
  selection of the physical TX line that is the \<open>i\<close>-th true entry of \<open>TX_lines\<close>; when the
  device delivers all 24 bytes of that burst, it is the high and low byte the device sent for
  that RX line.
\<close>

theorem scan_fills_grid:
  assumes "well_formed s" "allocated s"
  shows "\<exists>s' cells cells'.
     getRawData s = Inr s' \<and> grid_cells s = Some cells \<and> grid_cells s' = Some cells' \<and>
     length cells' = NUM_TX * NUM_RX \<and>
     card (written (countActive (TX_lines s)) (countActive (RX_lines s))) =
       countActive (TX_lines s) * countActive (RX_lines s) \<and>
     (\<forall>k. k \<notin> written (countActive (TX_lines s)) (countActive (RX_lines s)) \<longrightarrow>
         cells' ! k = cells ! k) \<and>
     (\<forall>i < countActive (TX_lines s). \<forall>j < countActive (RX_lines s).
         i * NUM_RX + j \<in> written (countActive (TX_lines s)) (countActive (RX_lines s)) \<and>
         cells' ! (i * NUM_RX + j) = sample_of (scan_bursts s ! i) (active (RX_lines s) ! j) \<and>
         (2 * NUM_RX \<le> length (row_reply s i) \<longrightarrow>
            cells' ! (i * NUM_RX + j) =
              Some (combine (row_reply s i ! (2 * (active (RX_lines s) ! j)))
                            (row_reply s i ! (2 * (active (RX_lines s) ! j) + 1))))) \<and>
     (\<forall>i < countActive (TX_lines s).
         scan_bursts s ! i =
           overlay (take (2 * NUM_RX) (row_reply s i))
             (if i = 0 then replicate (2 * NUM_RX) None else scan_bursts s ! (i - 1)))"
proof -
  let ?m = "countActive (TX_lines s)" and ?n = "countActive (RX_lines s)"
  have n: "?n \<le> NUM_RX"
    using countActive_le [of "RX_lines s"] assms(1) by (simp add: well_formed_def)
  from scan_eq [OF assms] obtain s' a cells cells' where
    s': "getRawData s = Inr s'" "grid s = Some a" "heap s a = Some cells"
      "s' = s\<lparr>txAddress := I2C_ADDRESS, txBuffer := [],
            rxBuffer := (if active (TX_lines s) = [] then rxBuffer s else []),
            history := history s @ Transmit I2C_ADDRESS [0x00, 0xC0] False #
                         concat (map row_events (active (TX_lines s))),
            heap := (heap s)(a := Some cells')\<rparr>"
      "length cells' = NUM_TX * NUM_RX"
    and nth: "\<forall>i < ?m. \<forall>j < ?n.
         cells' ! (i * NUM_RX + j) = sample_of (scan_bursts s ! i) (active (RX_lines s) ! j)"
    and other: "\<forall>k. k \<notin> written ?m ?n \<longrightarrow> cells' ! k = cells ! k"
    by blast
  have g: "grid_cells s = Some cells" "grid_cells s' = Some cells'"
    using s'(2,3) unfolding s'(4) by (simp_all add: grid_cells_def)
  have cells: "\<forall>i < ?m. \<forall>j < ?n.
         i * NUM_RX + j \<in> written ?m ?n \<and>
         cells' ! (i * NUM_RX + j) = sample_of (scan_bursts s ! i) (active (RX_lines s) ! j) \<and>
         (2 * NUM_RX \<le> length (row_reply s i) \<longrightarrow>
            cells' ! (i * NUM_RX + j) =
              Some (combine (row_reply s i ! (2 * (active (RX_lines s) ! j)))
                            (row_reply s i ! (2 * (active (RX_lines s) ! j) + 1))))"
  proof (intro allI impI conjI)
    fix i j assume ij: "i < ?m" "j < ?n"
    show "i * NUM_RX + j \<in> written ?m ?n" using ij by (auto simp: written_def)
    show c: "cells' ! (i * NUM_RX + j) = sample_of (scan_bursts s ! i) (active (RX_lines s) ! j)"
      using nth ij by blast
    assume full: "2 * NUM_RX \<le> length (row_reply s i)"
    have "active (RX_lines s) ! j < NUM_RX"
      using active_nth_lt [OF ij(2)] assms(1) by (simp add: well_formed_def)
    from sample_of_full [OF ij(1) full this] c
    show "cells' ! (i * NUM_RX + j) =
              Some (combine (row_reply s i ! (2 * (active (RX_lines s) ! j)))
                            (row_reply s i ! (2 * (active (RX_lines s) ! j) + 1)))" by simp
  qed
  have bursts: "\<forall>i < ?m. scan_bursts s ! i =
           overlay (take (2 * NUM_RX) (row_reply s i))
             (if i = 0 then replicate (2 * NUM_RX) None else scan_bursts s ! (i - 1))"
    using scan_bursts_nth by blast
  show ?thesis
  proof (rule exI [of _ s'], rule exI [of _ cells], rule exI [of _ cells'], intro conjI)
    show "getRawData s = Inr s'" by (fact s'(1))
    show "grid_cells s = Some cells" by (fact g(1))
    show "grid_cells s' = Some cells'" by (fact g(2))
    show "length cells' = NUM_TX * NUM_RX" by (fact s'(5))
    show "card (written ?m ?n) = ?m * ?n" by (fact card_written [OF n])
    show "\<forall>k. k \<notin> written ?m ?n \<longrightarrow> cells' ! k = cells ! k" by (fact other)
  qed (fact cells, fact bursts)
qed

theorem scan_fills_grid_witness:
  "well_formed gap_skin \<and> allocated gap_skin \<and>
   card (written (countActive (TX_lines gap_skin)) (countActive (RX_lines gap_skin))) = 22 \<and>
   (\<exists>s' cells'. getRawData gap_skin = Inr s' \<and> grid_cells s' = Some cells' \<and>
      cells' ! (1 * NUM_RX + 0) = Some 0x0101 \<and> cells' ! 11 = None)"
proof -
  have wf: "well_formed gap_skin" "allocated gap_skin" by code_simp+
  have c: "countActive (TX_lines gap_skin) = 2" "countActive (RX_lines gap_skin) = 11"
    "active (RX_lines gap_skin) ! 0 = 1" by code_simp+
  have r: "row_reply gap_skin (Suc 0) = replicate 24 0x01"
    by (simp add: row_reply_def gap_skin_def useRawData_fields UnipdSkin_def ones_reply_def)
  have old: "grid_cells gap_skin = Some (replicate 252 None)" by code_simp
  have out: "11 \<notin> written 2 11"
  proof
    assume "11 \<in> written 2 11"
    then obtain i j where "11 = i * NUM_RX + j" "i < 2" "j < (11::nat)" by (auto simp: written_def)
    then show False by (cases i) (simp_all add: NUM_RX_def)
  qed
  from scan_fills_grid [OF wf] obtain s' cells cells' where
    s': "getRawData gap_skin = Inr s'" "grid_cells gap_skin = Some cells"
      "grid_cells s' = Some cells'"
    and cd: "card (written 2 11) = 2 * 11"
    and other: "\<forall>k. k \<notin> written 2 11 \<longrightarrow> cells' ! k = cells ! k"
    and nth: "\<forall>i < 2. \<forall>j < 11.
         (2 * NUM_RX \<le> length (row_reply gap_skin i) \<longrightarrow>
            cells' ! (i * NUM_RX + j) =
              Some (combine (row_reply gap_skin i ! (2 * (active (RX_lines gap_skin) ! j)))
                            (row_reply gap_skin i ! (2 * (active (RX_lines gap_skin) ! j) + 1))))"
    unfolding c by blast
  have cs: "cells = replicate 252 None" using s'(2) old by simp
  have "cells' ! 11 = cells ! 11" using other out by blast
  then have a: "cells' ! 11 = None" by (simp add: cs)
  have b: "cells' ! (1 * NUM_RX + 0) = Some 0x0101"
    using nth [rule_format, of 1 0] by (simp add: r c NUM_RX_def combine_def)
  have "\<exists>s' cells'. getRawData gap_skin = Inr s' \<and> grid_cells s' = Some cells' \<and>
      cells' ! (1 * NUM_RX + 0) = Some 0x0101 \<and> cells' ! 11 = None"
    by (rule exI [of _ s'], rule exI [of _ cells'], intro conjI) (fact s'(1), fact s'(3), fact b, fact a)
  with wf cd show ?thesis by (simp add: c)
qed

section \<open>Decoding a sample\<close>

lemma pair_skin_ok: "well_formed pair_skin" "allocated pair_skin"
  by (simp_all add: pair_skin_def useRawData_fields init_eq ok_status_def UnipdSkin_def
      well_formed_def allocated_def grid_cells_def unat_dims)

text \<open>
  Claim C6. In a scan, for every active RX line \<open>r\<close> and whatever the burst buffer of the row
  holds: when the buffer holds the bytes \<open>hi\<close> at offset \<open>2r\<close> and \<open>lo\<close> at offset \<open>2r + 1\<close>,
  the sample that the scan stores in the grid for that row and line is \<open>hi\<close> shifted left by
  eight bits, joined by bitwise or with \<open>lo\<close>. Its value is 256 times \<open>hi\<close> plus \<open>lo\<close>, its
  high byte is \<open>hi\<close> and its low byte is \<open>lo\<close>; the bytes 0x12 and 0x34 are stored as 0x1234.
\<close>

theorem sample_decoding:
  assumes "well_formed s" "allocated s"
    and "i < countActive (TX_lines s)" "j < countActive (RX_lines s)"
    and "scan_bursts s ! i ! (2 * (active (RX_lines s) ! j)) = Some hi"
    and "scan_bursts s ! i ! (2 * (active (RX_lines s) ! j) + 1) = Some lo"
  shows "\<exists>s' cells'.
           getRawData s = Inr s' \<and> grid_cells s' = Some cells' \<and>
           cells' ! (i * NUM_RX + j) = Some (push_bit 8 (ucast hi) OR ucast lo) \<and>
           read_sample (scan_bursts s ! i) (active (RX_lines s) ! j) =
             Inr (Some (push_bit 8 (ucast hi) OR ucast lo)) \<and>
           unat (push_bit 8 (ucast hi) OR ucast lo :: uint) = 256 * unat hi + unat lo \<and>
           ucast (drop_bit 8 (push_bit 8 (ucast hi) OR ucast lo :: uint)) = hi \<and>
           ucast (push_bit 8 (ucast hi) OR ucast lo :: uint) = lo \<and>
           (hi = 0x12 \<and> lo = 0x34 \<longrightarrow> cells' ! (i * NUM_RX + j) = Some 0x1234)"
proof -
  let ?r = "active (RX_lines s) ! j"
  from scan_eq [OF assms(1,2)] obtain s' a cells cells' where
    s': "getRawData s = Inr s'" "grid s = Some a"
      "s' = s\<lparr>txAddress := I2C_ADDRESS, txBuffer := [],
            rxBuffer := (if active (TX_lines s) = [] then rxBuffer s else []),
            history := history s @ Transmit I2C_ADDRESS [0x00, 0xC0] False #
                         concat (map row_events (active (TX_lines s))),
            heap := (heap s)(a := Some cells')\<rparr>"
    and nth: "\<forall>i < countActive (TX_lines s). \<forall>j < countActive (RX_lines s).
         cells' ! (i * NUM_RX + j) = sample_of (scan_bursts s ! i) (active (RX_lines s) ! j)"
    by blast
  have g: "grid_cells s' = Some cells'"
    using s'(2) unfolding s'(3) by (simp add: grid_cells_def)
  have c: "cells' ! (i * NUM_RX + j) = Some (combine hi lo)"
    using nth assms(3-6) by (simp add: sample_of_def combine_cells_def)
  have r: "?r < NUM_RX"
    using active_nth_lt [OF assms(4)] assms(1) by (simp add: well_formed_def)
  have rd: "read_sample (scan_bursts s ! i) ?r = Inr (Some (combine hi lo))"
    using r assms(5,6) length_scan_burst [OF assms(3)]
    by (simp add: read_sample_def buffer_at_def combine_cells_def)
  have ex: "combine 0x12 0x34 = 0x1234" by (simp add: combine_def)
  show ?thesis
  proof (rule exI [of _ s'], rule exI [of _ cells'], intro conjI impI)
    show "getRawData s = Inr s'" by (fact s'(1))
    show "grid_cells s' = Some cells'" by (fact g)
    show "cells' ! (i * NUM_RX + j) = Some (push_bit 8 (ucast hi) OR ucast lo)"
      using c by (simp add: combine_def)
    show "read_sample (scan_bursts s ! i) ?r = Inr (Some (push_bit 8 (ucast hi) OR ucast lo))"
      using rd by (simp add: combine_def)
    show "unat (push_bit 8 (ucast hi) OR ucast lo :: uint) = 256 * unat hi + unat lo"
      using unat_combine [of hi lo] by (simp add: combine_def)
    show "ucast (drop_bit 8 (push_bit 8 (ucast hi) OR ucast lo :: uint)) = hi"
      using hi_combine [of hi lo] by (simp add: combine_def)
    show "ucast (push_bit 8 (ucast hi) OR ucast lo :: uint) = lo"
      using lo_combine [of hi lo] by (simp add: combine_def)
    assume "hi = 0x12 \<and> lo = 0x34"
    then show "cells' ! (i * NUM_RX + j) = Some 0x1234" using c ex by simp
  qed
qed

theorem sample_decoding_witness:
  "well_formed pair_skin \<and> allocated pair_skin \<and>
   (3::nat) < countActive (TX_lines pair_skin) \<and> (5::nat) < countActive (RX_lines pair_skin) \<and>
   active (RX_lines pair_skin) ! 5 = 5 \<and>
   scan_bursts pair_skin ! 3 ! 10 = Some 0x12 \<and> scan_bursts pair_skin ! 3 ! 11 = Some 0x34 \<and>
   (\<exists>s' cells'. getRawData pair_skin = Inr s' \<and> grid_cells s' = Some cells' \<and>
      cells' ! (3 * NUM_RX + 5) = Some 0x1234)"
proof -
  have masks: "TX_lines pair_skin = replicate NUM_TX True" "RX_lines pair_skin = replicate NUM_RX True"
    by (simp_all add: pair_skin_def useRawData_fields init_eq ok_status_def UnipdSkin_def)
  have cnt: "(3::nat) < countActive (TX_lines pair_skin)" "(5::nat) < countActive (RX_lines pair_skin)"
    and act: "active (RX_lines pair_skin) ! 5 = 5"
    by (simp_all add: masks countActive_def active_replicate NUM_TX_def NUM_RX_def)
  have rep: "row_reply pair_skin 3 = concat (replicate 12 [0x12, 0x34])"
    by (simp add: row_reply_def pair_skin_def useRawData_fields init_eq ok_status_def
        UnipdSkin_def pair_reply_def Let_def useRawData_eq)
  have pr: "concat (replicate 12 [0x12, 0x34 :: byte]) =
      [0x12, 0x34, 0x12, 0x34, 0x12, 0x34, 0x12, 0x34, 0x12, 0x34, 0x12, 0x34, 0x12, 0x34, 0x12, 0x34, 0x12, 0x34, 0x12, 0x34, 0x12, 0x34, 0x12, 0x34]"
    by code_simp
  have b: "scan_bursts pair_skin ! 3 = map Some (concat (replicate 12 [0x12, 0x34]))"
    using scan_bursts_nth [OF cnt(1)] length_scan_burst [of 2 pair_skin] cnt(1)
    by (simp add: rep overlay_def NUM_RX_def pr)
  have bytes: "scan_bursts pair_skin ! 3 ! (2 * (active (RX_lines pair_skin) ! 5)) = Some 0x12"
    "scan_bursts pair_skin ! 3 ! (2 * (active (RX_lines pair_skin) ! 5) + 1) = Some 0x34"
    unfolding act b pr by simp_all
  from sample_decoding [OF pair_skin_ok cnt bytes] obtain s' cells' where
    s': "getRawData pair_skin = Inr s'" "grid_cells s' = Some cells'"
      "cells' ! (3 * NUM_RX + 5) = Some (push_bit 8 (ucast (0x12::byte)) OR ucast (0x34::byte))"
    by blast
  have v: "cells' ! (3 * NUM_RX + 5) = Some 0x1234" using s'(3) by simp
  have "\<exists>s' cells'. getRawData pair_skin = Inr s' \<and> grid_cells s' = Some cells' \<and>
      cells' ! (3 * NUM_RX + 5) = Some 0x1234"
    by (rule exI [of _ s'], rule exI [of _ cells'], intro conjI) (fact s'(1), fact s'(2), fact v)
  moreover have "scan_bursts pair_skin ! 3 ! 10 = Some 0x12" "scan_bursts pair_skin ! 3 ! 11 = Some 0x34"
    using bytes unfolding act by simp_all
  ultimately show ?thesis using pair_skin_ok cnt act by simp
qed

section \<open>Polling\<close>




section \<open>Sequences of public calls\<close>













end
